theory Spec2Isabelle
  imports Complex_Main "HOL-Library.List_Lexorder" "HOL-Library.Char_ord"
begin

section \<open>Esports-Trajectory: the resumable ingestion core\<close>

text \<open>
  A shallow embedding of the Python sources under \<^verbatim>\<open>data/\<close>. Python strings are
  modelled as \<^typ>\<open>string\<close> holding their UTF-8 bytes: the byte order of UTF-8 is the
  code-point order that \<^verbatim>\<open>sorted\<close> uses, and every character the code looks for is
  ASCII. Python's unbounded integers are \<^typ>\<open>int\<close>. Exceptions are values of the
  datatype \<open>exn\<close>, and every function that can raise returns a sum.
\<close>

subsection \<open>Strings\<close>

definition startswith :: "string \<Rightarrow> string \<Rightarrow> bool" where
  "startswith s p = (take (length p) s = p)"

text \<open>\<^verbatim>\<open>str.startswith\<close> with a tuple of prefixes.\<close>

definition startswith_any :: "string \<Rightarrow> string list \<Rightarrow> bool" where
  "startswith_any s ps = list_ex (startswith s) ps"

text \<open>\<^verbatim>\<open>needle in s\<close> for strings.\<close>

fun contains :: "string \<Rightarrow> string \<Rightarrow> bool" where
  "contains [] needle = (needle = [])"
| "contains (c # cs) needle = (startswith (c # cs) needle \<or> contains cs needle)"

text \<open>
  \<^verbatim>\<open>str.lower\<close> on the ASCII letters. Outside ASCII only the Kelvin sign and the
  dotted capital I lower to something with an ASCII letter (\<open>k\<close>, and \<open>i\<close> followed by
  a combining dot), and neither can complete one of the four prefixes below, so the
  prefix test of the source is decided by the ASCII letters alone.
\<close>

definition lower_char :: "char \<Rightarrow> char" where
  "lower_char c =
     (if CHR ''A'' \<le> c \<and> c \<le> CHR ''Z'' then char_of (of_char c + (32::nat)) else c)"

definition lower :: "string \<Rightarrow> string" where
  "lower s = map lower_char s"

text \<open>\<^verbatim>\<open>s.replace(a, b)\<close> for single characters.\<close>

definition replace_char :: "char \<Rightarrow> char \<Rightarrow> string \<Rightarrow> string" where
  "replace_char a b s = map (\<lambda>c. if c = a then b else c) s"

text \<open>
  \<^verbatim>\<open>s[:n]\<close> on the UTF-8 bytes: the first \<open>n\<close> characters, each a lead byte with
  the continuation bytes (\<open>0x80\<close> to \<open>0xBF\<close>) that follow it.
\<close>

fun take_chars :: "nat \<Rightarrow> string \<Rightarrow> string" where
  "take_chars n [] = []"
| "take_chars n (c # cs) =
     (if 128 \<le> (of_char c :: nat) \<and> (of_char c :: nat) < 192 then c # take_chars n cs
      else (case n of 0 \<Rightarrow> [] | Suc k \<Rightarrow> c # take_chars k cs))"

subsection \<open>Exceptions\<close>

datatype exn =
    RateLimited string
  | RuntimeError string
  | HTTPError int
  | ConnectionError
  | JSONDecodeError
  | AttributeError
  | IndexError
  | IntegrityError
  | RetriesExhausted "int option" "string option" "string option" "exn option"
  | HtmlFetchFailed string "exn option"

text \<open>
  \<open>RetriesExhausted last_status retry_after preview last_exc\<close> is the
  \<^verbatim>\<open>RuntimeError\<close> that \<^verbatim>\<open>_request\<close> raises after its last attempt, with the fields
  its message is formatted from; \<open>HtmlFetchFailed url last_exc\<close> is the one of
  \<^verbatim>\<open>fetch_full_html\<close>. All constructors are subclasses of \<^verbatim>\<open>Exception\<close>.
\<close>

fun is_RateLimited :: "exn \<Rightarrow> bool" where
  "is_RateLimited (RateLimited m) = True"
| "is_RateLimited e = False"

subsection \<open>discover\_players.py\<close>

text \<open>
  \<^verbatim>\<open>re.match(r"^/leagueoflegends/([^#?]+)$", href)\<close>: the greedy group takes the whole
  rest of the string, which must be non-empty and free of \<open>#\<close> and \<open>?\<close>; the result is
  \<^verbatim>\<open>m.group(1)\<close>.
\<close>

definition match_player_href :: "string \<Rightarrow> string option" where
  "match_player_href href =
     (let rest = drop (length ''/leagueoflegends/'') href
      in if startswith href ''/leagueoflegends/'' \<and> rest \<noteq> []
            \<and> CHR ''#'' \<notin> set rest \<and> CHR ''?'' \<notin> set rest
         then Some rest else None)"

definition non_player_prefixes :: "string list" where
  "non_player_prefixes = [''portal'', ''help'', ''special'', ''category'']"

text \<open>The body of the loop over the anchors: the title set after one \<^verbatim>\<open>href\<close>.\<close>

definition add_href :: "string \<Rightarrow> string set \<Rightarrow> string set" where
  "add_href href titles =
     (case match_player_href href of
        None \<Rightarrow> titles
      | Some g \<Rightarrow>
          (let title = replace_char (CHR ''_'') (CHR '' '') g
           in if CHR '':'' \<in> set title then titles
              else if CHR ''/'' \<in> set title then titles
              else if startswith_any (lower title) non_player_prefixes then titles
              else insert title titles))"

text \<open>
  \<open>find_all_a_href html\<close> stands for BeautifulSoup's
  \<^verbatim>\<open>soup.find_all("a", href=True)\<close> followed by \<^verbatim>\<open>a["href"]\<close>: the \<^verbatim>\<open>href\<close> values of
  the anchors of the document, in document order. The parser is a library, so it is a
  parameter.
\<close>

definition discover_player_titles_from_html ::
  "(string \<Rightarrow> string list) \<Rightarrow> string \<Rightarrow> string list" where
  "discover_player_titles_from_html find_all_a_href html =
     sorted_list_of_set (fold add_href (find_all_a_href html) {})"

subsection \<open>config.py\<close>

text \<open>
  The configuration dictionary, with the keys the player stage reads. \<open>None\<close> is an
  absent key; \<open>max_players\<close> holds the value of \<^verbatim>\<open>int(...)\<close> of the entry.
\<close>

record config =
  player_index_page :: "string option"
  cache_dir :: "string option"
  max_players :: "int option"

text \<open>\<^verbatim>\<open>cfg.setdefault("max_players", 0)\<close> in \<^verbatim>\<open>load_config\<close>.\<close>

definition load_config :: "config \<Rightarrow> config" where
  "load_config cfg =
     cfg\<lparr>max_players := Some (case max_players cfg of None \<Rightarrow> 0 | Some n \<Rightarrow> n)\<rparr>"

text \<open>\<^verbatim>\<open>int(cfg.get("max_players", 0))\<close>.\<close>

definition cfg_max_players :: "config \<Rightarrow> int" where
  "cfg_max_players cfg = (case max_players cfg of None \<Rightarrow> 0 | Some n \<Rightarrow> n)"

text \<open>\<^verbatim>\<open>if max_players > 0: titles = titles[:max_players]\<close>.\<close>

definition truncate_titles :: "int \<Rightarrow> string list \<Rightarrow> string list" where
  "truncate_titles mp titles = (if mp > 0 then take (nat mp) titles else titles)"

subsection \<open>cache.py\<close>

text \<open>
  The cache directory is a map from paths to file contents (bytes). \<^verbatim>\<open>hashlib.sha1\<close>
  and \<^verbatim>\<open>os.linesep\<close> belong to the platform and are fields of the record \<open>world\<close>
  below, which gathers everything the code takes from outside.

  Both functions open the file in text mode with the default \<^verbatim>\<open>newline=None\<close>: on
  writing, every line feed becomes \<^verbatim>\<open>os.linesep\<close>; on reading, universal newlines
  are on, and \<open>CR LF\<close> and a lone \<open>CR\<close> both come back as a line feed.
\<close>

type_synonym files = "string \<rightharpoonup> string"

definition CR :: char where "CR = CHR 0x0D"
definition LF :: char where "LF = CHR 0x0A"

definition write_text :: "string \<Rightarrow> string \<Rightarrow> string" where
  "write_text linesep s = concat (map (\<lambda>c. if c = LF then linesep else [c]) s)"

fun read_text :: "string \<Rightarrow> string" where
  "read_text [] = []"
| "read_text [c] = (if c = CR then [LF] else [c])"
| "read_text (c # d # cs) =
     (if c = CR then (if d = LF then LF # read_text cs else LF # read_text (d # cs))
      else c # read_text (d # cs))"

text \<open>\<^verbatim>\<open>os.path.join(cache_dir, name)\<close> for a relative \<open>name\<close>.\<close>

definition path_join :: "string \<Rightarrow> string \<Rightarrow> string" where
  "path_join dir name =
     (if dir = [] \<or> last dir = CHR ''/'' then dir @ name else dir @ ''/'' @ name)"

subsection \<open>The outside world\<close>

record profile =
  display_name :: "string option"
  country :: "string option"
  role :: "string option"

record stint =
  team :: "string option"
  joined :: "string option"
  left :: "string option"
  "note" :: "string option"
  source_url :: "string option"

text \<open>
  \<^item> \<open>sha1_hexdigest\<close>, \<open>linesep\<close>: \<^verbatim>\<open>hashlib\<close> and \<^verbatim>\<open>os\<close>;
  \<^item> \<open>wiki_base\<close>, \<open>fetch_html\<close>, \<open>fetch_full_html\<close>: the \<^verbatim>\<open>mw\<close> object handed to the
    stage, with the outcome of each fetch (the client itself is modelled further below);
  \<^item> \<open>parse_player_page\<close>, \<open>find_all_a_href\<close>: the page interpreter and the HTML parser;
  \<^item> \<open>utc_now_item i\<close>, \<open>utc_now_checkpoint i\<close>: what \<^verbatim>\<open>_utc_now_str()\<close> returns in the
    loop body and in \<^verbatim>\<open>set_checkpoint\<close> while index \<open>i\<close> is processed;
  \<^item> \<open>julianday\<close>: SQLite's function of that name, \<open>None\<close> for \<^verbatim>\<open>NULL\<close>.
\<close>

record world =
  sha1_hexdigest :: "string \<Rightarrow> string"
  linesep :: string
  wiki_base :: string
  fetch_html :: "string \<Rightarrow> exn + string"
  fetch_full_html :: "string \<Rightarrow> exn + string"
  parse_player_page :: "string \<Rightarrow> string \<Rightarrow> exn + (profile \<times> stint list)"
  find_all_a_href :: "string \<Rightarrow> string list"
  utc_now_item :: "int \<Rightarrow> string"
  utc_now_checkpoint :: "int \<Rightarrow> string"
  julianday :: "string \<Rightarrow> rat option"

definition cache_path :: "world \<Rightarrow> string \<Rightarrow> string \<Rightarrow> string" where
  "cache_path w dir key = path_join dir (sha1_hexdigest w key @ ''.html'')"

definition cache_get :: "world \<Rightarrow> files \<Rightarrow> string \<Rightarrow> string \<Rightarrow> string option" where
  "cache_get w fs dir key =
     (case fs (cache_path w dir key) of
        Some bytes \<Rightarrow> Some (read_text bytes)
      | None \<Rightarrow> None)"

definition cache_set :: "world \<Rightarrow> files \<Rightarrow> string \<Rightarrow> string \<Rightarrow> string \<Rightarrow> files" where
  "cache_set w fs dir key v =
     fs(cache_path w dir key \<mapsto> write_text (linesep w) v)"

subsection \<open>db.py\<close>

text \<open>
  The four tables. \<open>players\<close> and \<open>player_careers\<close> have a primary key and are maps;
  \<open>team_stints\<close> is the list of its rows in insertion order. A \<^verbatim>\<open>NULL\<close> is \<open>None\<close>.
  The checkpoint value is the integer whose \<^verbatim>\<open>str\<close> the column holds and that
  \<^verbatim>\<open>int(...)\<close> reads back.
\<close>

record player_row = profile +
  page_url :: string
  created_utc :: string
  updated_utc :: string

record stint_row = stint +
  player_title :: string
  created_utc :: string

record career_row =
  career_start :: "string option"
  career_end :: "string option"
  career_days :: "rat option"
  stints_count :: int
  updated_utc :: string

record db =
  checkpoints :: "string \<rightharpoonup> int \<times> string"
  players :: "string \<rightharpoonup> player_row"
  team_stints :: "stint_row list"
  player_careers :: "string \<rightharpoonup> career_row"

text \<open>
  A connection: \<open>pending\<close> is the database as the connection sees it, with the writes
  of its open transaction; \<open>durable\<close> is the committed database, which is what an
  unclean stop leaves behind; \<open>history\<close> lists every database that a commit of this
  connection has made durable, oldest first.
\<close>

record connection =
  pending :: db
  durable :: db
  history :: "db list"

definition commit :: "connection \<Rightarrow> connection" where
  "commit c = c\<lparr>durable := pending c, history := history c @ [pending c]\<rparr>"

text \<open>\<^verbatim>\<open>SELECT value FROM checkpoints WHERE key=?\<close> on a database.\<close>

definition checkpoint_of :: "db \<Rightarrow> string \<Rightarrow> int option" where
  "checkpoint_of d key = map_option fst (checkpoints d key)"

definition get_checkpoint :: "connection \<Rightarrow> string \<Rightarrow> int option" where
  "get_checkpoint c key = checkpoint_of (pending c) key"

definition set_checkpoint :: "connection \<Rightarrow> string \<Rightarrow> int \<Rightarrow> string \<Rightarrow> connection" where
  "set_checkpoint c key v now =
     commit (c\<lparr>pending := (pending c)\<lparr>checkpoints := (checkpoints (pending c))(key \<mapsto> (v, now))\<rparr>\<rparr>)"

text \<open>
  The upsert of the player stage:
  \<^verbatim>\<open>INSERT INTO players ... ON CONFLICT(page_title) DO UPDATE SET ...\<close>, which keeps
  \<open>created_utc\<close> of an existing row.
\<close>

definition upsert_player :: "db \<Rightarrow> string \<Rightarrow> string \<Rightarrow> profile \<Rightarrow> string \<Rightarrow> db" where
  "upsert_player d title url p now =
     (let created = (case players d title of
                       None \<Rightarrow> now
                     | Some old \<Rightarrow> player_row.created_utc old)
      in d\<lparr>players := (players d)(title \<mapsto>
            \<lparr>display_name = display_name p, country = country p, role = role p,
             page_url = url, created_utc = created, updated_utc = now\<rparr>)\<rparr>)"

text \<open>
  SQL equality inside a \<^verbatim>\<open>UNIQUE\<close> constraint: SQLite treats every \<^verbatim>\<open>NULL\<close> as
  distinct from every value, another \<^verbatim>\<open>NULL\<close> included.
\<close>

fun unique_eq :: "string option \<Rightarrow> string option \<Rightarrow> bool" where
  "unique_eq (Some a) (Some b) = (a = b)"
| "unique_eq x y = False"

text \<open>\<^verbatim>\<open>UNIQUE(player_title, team, joined, left, note)\<close>.\<close>

definition unique_conflict :: "stint_row \<Rightarrow> stint_row \<Rightarrow> bool" where
  "unique_conflict r s =
     (player_title r = player_title s \<and> unique_eq (team r) (team s)
      \<and> unique_eq (joined r) (joined s) \<and> unique_eq (left r) (left s)
      \<and> unique_eq (note r) (note s))"

text \<open>
  \<^verbatim>\<open>INSERT OR IGNORE INTO team_stints ...\<close> with \<^verbatim>\<open>PRAGMA foreign_keys=ON\<close>: a row
  whose player is not in \<open>players\<close> violates the foreign key, which \<^verbatim>\<open>OR IGNORE\<close> does
  not cover; a row in conflict with a stored one is dropped.
\<close>

definition insert_or_ignore_stint :: "db \<Rightarrow> stint_row \<Rightarrow> exn + db" where
  "insert_or_ignore_stint d r =
     (if players d (player_title r) = None then Inl IntegrityError
      else if list_ex (\<lambda>s. unique_conflict s r) (team_stints d) then Inr d
      else Inr (d\<lparr>team_stints := team_stints d @ [r]\<rparr>))"

text \<open>\<^verbatim>\<open>init_db\<close> on a new file: the four tables, empty.\<close>

definition init_db :: db where
  "init_db = \<lparr>checkpoints = Map.empty, players = Map.empty, team_stints = [],
              player_careers = Map.empty\<rparr>"

subsection \<open>stages/players.py\<close>

text \<open>The stage works on the connection and on the cache directory.\<close>

record stage_state =
  conn :: connection
  files :: files

datatype outcome = Done | Aborted | Raised exn

text \<open>
  What the loop did with an index: stored the item, skipped it after an error (the
  source logs \<^verbatim>\<open>ERROR scraping\<close>), or stopped at it (\<^verbatim>\<open>STOPPING due to rate limit\<close>).
\<close>

datatype item_event =
    Stored int string profile "stint list"
  | Skipped int exn
  | Stopped int exn

definition done_key :: string where
  "done_key = ''players:last_index''"

text \<open>\<^verbatim>\<open>titles[i]\<close>: a negative index counts from the end, an index out of range raises.\<close>

definition py_index :: "'a list \<Rightarrow> int \<Rightarrow> exn + 'a" where
  "py_index xs i =
     (if 0 \<le> i \<and> i < int (length xs) then Inr (xs ! nat i)
      else if i < 0 \<and> 0 \<le> i + int (length xs) then Inr (xs ! nat (i + int (length xs)))
      else Inl IndexError)"

text \<open>\<^verbatim>\<open>mw.page_url(title)\<close>.\<close>

definition mw_page_url :: "world \<Rightarrow> string \<Rightarrow> string" where
  "mw_page_url w title = wiki_base w @ ''/'' @ replace_char (CHR '' '') (CHR ''_'') title"

text \<open>
  \<^verbatim>\<open>_fetch_index_html\<close> and \<^verbatim>\<open>_fetch_player_overview_html\<close>: a cached document
  that is not empty is returned; otherwise the document is fetched and cached.
\<close>

definition fetch_index_html :: "world \<Rightarrow> files \<Rightarrow> string \<Rightarrow> string \<Rightarrow> (exn + string) \<times> files" where
  "fetch_index_html w fs index_page dir =
     (let key = ''INDEX::'' @ index_page
      in case cache_get w fs dir key of
           Some (c # cs) \<Rightarrow> (Inr (c # cs), fs)
         | _ \<Rightarrow>
            (case fetch_full_html w index_page of
               Inl e \<Rightarrow> (Inl e, fs)
             | Inr html \<Rightarrow> (Inr html, cache_set w fs dir key html)))"

definition fetch_player_overview_html ::
  "world \<Rightarrow> files \<Rightarrow> string \<Rightarrow> string \<Rightarrow> (exn + string) \<times> files" where
  "fetch_player_overview_html w fs title dir =
     (let key = ''PLAYER::'' @ title
      in case cache_get w fs dir key of
           Some (c # cs) \<Rightarrow> (Inr (c # cs), fs)
         | _ \<Rightarrow>
            (case fetch_html w title of
               Inl e \<Rightarrow> (Inl e, fs)
             | Inr html \<Rightarrow> (Inr html, cache_set w fs dir key html)))"

text \<open>The \<^verbatim>\<open>try\<close> block of the loop body: fetch, then interpret.\<close>

definition try_block ::
  "world \<Rightarrow> files \<Rightarrow> string \<Rightarrow> string \<Rightarrow> string \<Rightarrow> (exn + profile \<times> stint list) \<times> files" where
  "try_block w fs title url dir =
     (case fetch_player_overview_html w fs title dir of
        (Inl e, fs') \<Rightarrow> (Inl e, fs')
      | (Inr html, fs') \<Rightarrow> (parse_player_page w html url, fs'))"

definition stint_row_of :: "string \<Rightarrow> string \<Rightarrow> stint \<Rightarrow> stint_row" where
  "stint_row_of title now s =
     \<lparr>team = team s, joined = joined s, left = left s, note = note s,
      source_url = source_url s, player_title = title, created_utc = now\<rparr>"

text \<open>
  The loop over \<^verbatim>\<open>stints\<close>; an exception of a statement leaves the loop. All rows
  of the loop have the same player, so only the first statement can violate the foreign
  key: a loop that raises has inserted nothing.
\<close>

fun insert_stints :: "db \<Rightarrow> string \<Rightarrow> string \<Rightarrow> stint list \<Rightarrow> exn + db" where
  "insert_stints d title now [] = Inr d"
| "insert_stints d title now (s # ss) =
     (case insert_or_ignore_stint d (stint_row_of title now s) of
        Inl e \<Rightarrow> Inl e
      | Inr d' \<Rightarrow> insert_stints d' title now ss)"

text \<open>
  One pass of the loop body at index \<open>i\<close>: either the stage ends there (\<open>Halt\<close>), or
  the loop goes on to \<open>i + 1\<close> (\<open>Next\<close>).
\<close>

datatype step_result =
    Halt outcome stage_state "item_event list"
  | Next stage_state item_event

definition process_item ::
  "world \<Rightarrow> string \<Rightarrow> string list \<Rightarrow> int \<Rightarrow> stage_state \<Rightarrow> step_result" where
  "process_item w dir titles i st =
     (case py_index titles i of
        Inl e \<Rightarrow> Halt (Raised e) st []
      | Inr title \<Rightarrow>
         (let url = mw_page_url w title
          in case try_block w (files st) title url dir of
               (Inl e, fs) \<Rightarrow>
                 if is_RateLimited e
                 then Halt Aborted
                        \<lparr>conn = set_checkpoint (conn st) done_key i (utc_now_checkpoint w i),
                         files = fs\<rparr>
                        [Stopped i e]
                 else Next
                        \<lparr>conn = set_checkpoint (conn st) done_key (i + 1) (utc_now_checkpoint w i),
                         files = fs\<rparr>
                        (Skipped i e)
             | (Inr (p, stints), fs) \<Rightarrow>
                 (let now = utc_now_item w i;
                      c = conn st;
                      d1 = upsert_player (pending c) title url p now
                  in case insert_stints d1 title now stints of
                       Inl e \<Rightarrow> Halt (Raised e) \<lparr>conn = c\<lparr>pending := d1\<rparr>, files = fs\<rparr> []
                     | Inr d2 \<Rightarrow>
                         Next
                           \<lparr>conn = set_checkpoint (commit (c\<lparr>pending := d2\<rparr>)) done_key (i + 1)
                                     (utc_now_checkpoint w i),
                            files = fs\<rparr>
                           (Stored i title p stints))))"

text \<open>\<^verbatim>\<open>for i in range(start_index, len(titles))\<close>, from index \<open>i\<close> on.\<close>

function players_loop ::
  "world \<Rightarrow> string \<Rightarrow> string list \<Rightarrow> int \<Rightarrow> stage_state
     \<Rightarrow> outcome \<times> stage_state \<times> item_event list" where
  "players_loop w dir titles i st =
     (if i < int (length titles)
      then (case process_item w dir titles i st of
              Halt out st' evs \<Rightarrow> (out, st', evs)
            | Next st' ev \<Rightarrow>
                (case players_loop w dir titles (i + 1) st' of
                   (out, st'', evs) \<Rightarrow> (out, st'', ev # evs)))
      else (Done, st, []))"
  by pat_completeness auto
termination
  by (relation "measure (\<lambda>(w, dir, titles, i, st). nat (int (length titles) - i))") auto

text \<open>
  \<^verbatim>\<open>cfg.get("player_index_page", "Portal:Players")\<close> and
  \<^verbatim>\<open>cfg.get("cache_dir", ".cache_html")\<close>.
\<close>

definition cfg_index_page :: "config \<Rightarrow> string" where
  "cfg_index_page cfg = (case player_index_page cfg of None \<Rightarrow> ''Portal:Players'' | Some v \<Rightarrow> v)"

definition cfg_cache_dir :: "config \<Rightarrow> string" where
  "cfg_cache_dir cfg = (case cache_dir cfg of None \<Rightarrow> ''.cache_html'' | Some v \<Rightarrow> v)"

text \<open>\<^verbatim>\<open>int(get_checkpoint(conn, done_key) or "0")\<close>, on a database.\<close>

definition cursor :: "db \<Rightarrow> int" where
  "cursor d = (case checkpoint_of d done_key of None \<Rightarrow> 0 | Some v \<Rightarrow> v)"

text \<open>The stage.\<close>

definition run :: "world \<Rightarrow> config \<Rightarrow> stage_state \<Rightarrow> outcome \<times> stage_state \<times> item_event list" where
  "run w cfg st =
     (let index_page = cfg_index_page cfg;
          dir = cfg_cache_dir cfg;
          mp = cfg_max_players cfg
      in case fetch_index_html w (files st) index_page dir of
           (Inl e, fs) \<Rightarrow> (Raised e, st\<lparr>files := fs\<rparr>, [])
         | (Inr index_html, fs) \<Rightarrow>
            (let titles = truncate_titles mp
                            (discover_player_titles_from_html (find_all_a_href w) index_html);
                 start_index = cursor (pending (conn st))
             in players_loop w dir titles start_index (st\<lparr>files := fs\<rparr>)))"

subsection \<open>stages/careers.py\<close>

text \<open>
  The aggregates of the \<^verbatim>\<open>SELECT\<close>. \<^verbatim>\<open>MIN\<close> and \<^verbatim>\<open>MAX\<close> compare \<^verbatim>\<open>TEXT\<close> values
  byte by byte, which is the order of \<^typ>\<open>string\<close> here, and are \<^verbatim>\<open>NULL\<close> on no rows.
\<close>

fun sql_min :: "string list \<Rightarrow> string option" where
  "sql_min [] = None"
| "sql_min (x # xs) = Some (fold min xs x)"

fun sql_max :: "string list \<Rightarrow> string option" where
  "sql_max [] = None"
| "sql_max (x # xs) = Some (fold max xs x)"

text \<open>\<^verbatim>\<open>COALESCE(left, ?)\<close>.\<close>

definition coalesce :: "string option \<Rightarrow> string \<Rightarrow> string" where
  "coalesce v dflt = (case v of None \<Rightarrow> dflt | Some x \<Rightarrow> x)"

text \<open>
  \<^verbatim>\<open>ROUND(x, 1)\<close>, on the rationals: to one decimal, halves away from zero. The
  column is a floating-point number in SQLite; the Julian day numbers of two dates
  differ by a whole number of days, which this rounding leaves as it is.
\<close>

definition sql_round1 :: "rat \<Rightarrow> rat" where
  "sql_round1 x =
     (if 0 \<le> x then of_int \<lfloor>x * 10 + 1 / 2\<rfloor> / 10
      else - (of_int \<lfloor>- x * 10 + 1 / 2\<rfloor> / 10))"

text \<open>
  The rows of one group of
  \<^verbatim>\<open>FROM team_stints WHERE joined IS NOT NULL GROUP BY player_title\<close>.
\<close>

definition career_group :: "db \<Rightarrow> string \<Rightarrow> stint_row list" where
  "career_group d title =
     filter (\<lambda>r. player_title r = title \<and> joined r \<noteq> None) (team_stints d)"

text \<open>The row that the \<^verbatim>\<open>SELECT\<close> yields for a group.\<close>

definition career_of :: "world \<Rightarrow> string \<Rightarrow> string \<Rightarrow> stint_row list \<Rightarrow> career_row" where
  "career_of w today now_utc g =
     (let cs = sql_min (List.map_filter joined g);
          ce = sql_max (map (\<lambda>r. coalesce (left r) today) g)
      in \<lparr>career_start = cs, career_end = ce,
          career_days =
            (case (Option.bind ce (julianday w), Option.bind cs (julianday w)) of
               (Some a, Some b) \<Rightarrow> Some (sql_round1 (a - b))
             | _ \<Rightarrow> None),
          stints_count = int (length g), updated_utc = now_utc\<rparr>)"

text \<open>
  \<^verbatim>\<open>run(conn)\<close> of the career stage, with the two clock readings \<open>today\<close> and
  \<open>now_utc\<close> as arguments: delete every derived row, insert one row per group, commit.
  \<open>player_careers\<close> has a foreign key into \<open>players\<close>; when a group's player has no
  row there, the \<^verbatim>\<open>INSERT\<close> raises and nothing is committed.
\<close>

definition careers_run :: "world \<Rightarrow> string \<Rightarrow> string \<Rightarrow> connection \<Rightarrow> exn + connection" where
  "careers_run w today now_utc c =
     (let d0 = (pending c)\<lparr>player_careers := Map.empty\<rparr>
      in if list_ex (\<lambda>r. joined r \<noteq> None \<and> players d0 (player_title r) = None) (team_stints d0)
         then Inl IntegrityError
         else Inr (commit (c\<lparr>pending := d0\<lparr>player_careers :=
                (\<lambda>title. if career_group d0 title = [] then None
                          else Some (career_of w today now_utc (career_group d0 title)))\<rparr>\<rparr>)))"

subsection \<open>What it means for an item to be stored\<close>

text \<open>
  The storage effects of a processed item are in a database when its \<open>players\<close> row
  carries the item's URL and profile and every stint of the item has a row with the
  same player, team, dates and note.
\<close>

definition same_stint :: "string \<Rightarrow> stint \<Rightarrow> stint_row \<Rightarrow> bool" where
  "same_stint title s r =
     (player_title r = title \<and> team r = team s \<and> joined r = joined s
      \<and> left r = left s \<and> note r = note s)"

definition item_stored :: "db \<Rightarrow> string \<Rightarrow> string \<Rightarrow> profile \<Rightarrow> stint list \<Rightarrow> bool" where
  "item_stored d title url p stints =
     ((case players d title of
         None \<Rightarrow> False
       | Some r \<Rightarrow> page_url r = url \<and> display_name r = display_name p
                   \<and> country r = country p \<and> role r = role p)
      \<and> list_all (\<lambda>s. list_ex (same_stint title s) (team_stints d)) stints)"

fun event_index :: "item_event \<Rightarrow> int" where
  "event_index (Stored i t p ss) = i"
| "event_index (Skipped i e) = i"
| "event_index (Stopped i e) = i"

subsection \<open>mw.py: the rate limiter\<close>

text \<open>
  Times are rational numbers of seconds. \<^verbatim>\<open>time.time()\<close> and \<^verbatim>\<open>time.sleep()\<close> act on a
  clock that the model carries along: a call of \<^verbatim>\<open>wait_for_slot\<close> starts \<open>gap\<close>
  seconds after the clock value it is given, draws \<open>jitter\<close> from
  \<^verbatim>\<open>random.uniform(0.5, 3.0)\<close>, and a sleep lasts \<open>overshoot\<close> seconds longer than asked.
\<close>

record limiter =
  max_requests :: int
  window_seconds :: int
  timestamps :: "rat list"

record tick =
  gap :: rat
  jitter :: rat
  overshoot :: rat

text \<open>\<^verbatim>\<open>HourlyRateLimiter(max_requests, window_seconds)\<close>.\<close>

definition new_limiter :: "int \<Rightarrow> int \<Rightarrow> limiter" where
  "new_limiter n w = \<lparr>max_requests = n, window_seconds = w, timestamps = []\<rparr>"

text \<open>
  \<^verbatim>\<open>while self.timestamps and now - self.timestamps[0] >= self.window_seconds:
  self.timestamps.popleft()\<close>
\<close>

fun drop_expired :: "rat \<Rightarrow> rat \<Rightarrow> rat list \<Rightarrow> rat list" where
  "drop_expired w now [] = []"
| "drop_expired w now (t # ts) = (if now - t \<ge> w then drop_expired w now ts else t # ts)"

text \<open>
  \<^verbatim>\<open>wait_for_slot\<close>: the limiter and the clock after the call; the clock is then the
  timestamp that the call has recorded. With a full queue the code reads
  \<^verbatim>\<open>self.timestamps[0]\<close>, which raises on an empty queue.
\<close>

definition wait_for_slot :: "limiter \<Rightarrow> rat \<Rightarrow> tick \<Rightarrow> exn + limiter \<times> rat" where
  "wait_for_slot l clock k =
     (let now = clock + gap k;
          ts = drop_expired (of_int (window_seconds l)) now (timestamps l)
      in if int (length ts) < max_requests l then Inr (l\<lparr>timestamps := ts @ [now]\<rparr>, now)
         else (case ts of
                 [] \<Rightarrow> Inl IndexError
               | t0 # rest \<Rightarrow>
                  (let sleep_for = max 1 (of_int (window_seconds l) - (now - t0) + jitter k);
                       now' = now + sleep_for + overshoot k;
                       ts' = drop_expired (of_int (window_seconds l)) now' ts
                   in Inr (l\<lparr>timestamps := ts' @ [now']\<rparr>, now'))))"

text \<open>
  A sequence of calls, one per tick; the result lists the timestamps that the calls
  have recorded, in order.
\<close>

fun acquire_all :: "limiter \<Rightarrow> rat \<Rightarrow> tick list \<Rightarrow> exn + limiter \<times> rat \<times> rat list" where
  "acquire_all l clock [] = Inr (l, clock, [])"
| "acquire_all l clock (k # ks) =
     (case wait_for_slot l clock k of
        Inl e \<Rightarrow> Inl e
      | Inr (l', t) \<Rightarrow>
         (case acquire_all l' t ks of
            Inl e \<Rightarrow> Inl e
          | Inr (l'', clock', recorded) \<Rightarrow> Inr (l'', clock', t # recorded)))"

subsection \<open>mw.py: the client\<close>

text \<open>
  What a call does besides computing its result is kept as a list of events: taking a
  slot of the limiter, the HTTP request, and the sleeps with the part of their length
  that is not random.
\<close>

datatype event =
    WaitForSlot
  | HttpGet
  | SleepPolite rat
  | Cooldown rat
  | Sleep rat
  | Throttle

text \<open>JSON values; of two entries of an object with one key, the later one counts.\<close>

datatype jv =
    JNull
  | JBool bool
  | JNum rat
  | JStr string
  | JArr "jv list"
  | JObj "(string \<times> jv) list"

text \<open>
  A response as the code reads it: \<open>json\<close> is what \<^verbatim>\<open>r.json()\<close> returns, \<open>None\<close> when
  the body is not JSON. \<^verbatim>\<open>session.get\<close> either raises or returns a response.
\<close>

record response =
  status_code :: int
  body :: string
  retry_after :: "string option"
  content_type :: "string option"
  json :: "jv option"

datatype reply = Raises exn | Response response

record params =
  action :: "string option"
  list_param :: "string option"
  page :: "string option"

record retry_state =
  backoff :: rat
  last_exc :: "exn option"
  last_status :: "int option"
  last_preview :: "string option"
  last_retry_after :: "string option"

definition initial_retry_state :: retry_state where
  "initial_retry_state =
     \<lparr>backoff = 10, last_exc = None, last_status = None, last_preview = None,
      last_retry_after = None\<rparr>"

definition rate_limit_marker :: string where
  "rate_limit_marker = ''Rate Limited - Liquipedia''"

text \<open>\<^verbatim>\<open>(r.status_code == 429) or ("Rate Limited - Liquipedia" in body)\<close>.\<close>

definition is_rate_limited :: "response \<Rightarrow> bool" where
  "is_rate_limited r = (status_code r = 429 \<or> contains (body r) rate_limit_marker)"

text \<open>An f-string field: \<^verbatim>\<open>None\<close> prints as \<open>None\<close>.\<close>

definition fmt :: "string option \<Rightarrow> string" where
  "fmt v = (case v of None \<Rightarrow> ''None'' | Some x \<Rightarrow> x)"

text \<open>\<^verbatim>\<open>a or b\<close> on optional strings.\<close>

definition py_or :: "string option \<Rightarrow> string option \<Rightarrow> string option" where
  "py_or a b = (case a of Some (c # cs) \<Rightarrow> a | _ \<Rightarrow> b)"

definition rate_limited_message :: "params \<Rightarrow> string" where
  "rate_limited_message ps =
     ''Liquipedia rate limited on API call: '' @ fmt (action ps) @ ''/''
       @ fmt (py_or (list_param ps) (page ps))"

text \<open>\<^verbatim>\<open>isinstance(payload, dict) and "error" in payload\<close>.\<close>

fun is_error_payload :: "jv \<Rightarrow> bool" where
  "is_error_payload (JObj kvs) = list_ex (\<lambda>kv. fst kv = ''error'') kvs"
| "is_error_payload v = False"

text \<open>The \<^verbatim>\<open>except Exception\<close> handler of \<^verbatim>\<open>_request\<close>.\<close>

definition request_handler :: "retry_state \<Rightarrow> exn \<Rightarrow> event list \<Rightarrow> retry_state \<times> event list" where
  "request_handler rs e evs =
     (rs\<lparr>last_exc := Some e, backoff := min (backoff rs * (8 / 5)) 180\<rparr>,
      evs @ [SleepPolite (min (max (backoff rs) 10) 60)])"

text \<open>
  One pass of the loop of \<^verbatim>\<open>_request\<close>: \<open>Inl\<close> when the call ends there, by a
  \<^verbatim>\<open>return\<close> or by the \<open>RateLimited\<close> that the handler lets through; \<open>Inr\<close> with the
  state of the next pass otherwise.
\<close>

definition request_attempt ::
  "params \<Rightarrow> reply \<Rightarrow> retry_state \<Rightarrow> ((exn + jv) + retry_state) \<times> event list" where
  "request_attempt ps rp rs =
     (case rp of
        Raises e \<Rightarrow>
          (if is_RateLimited e then (Inl (Inl e), [WaitForSlot, HttpGet])
           else (case request_handler rs e [WaitForSlot, HttpGet] of
                   (rs', evs) \<Rightarrow> (Inr rs', evs)))
      | Response r \<Rightarrow>
          (let rs1 = rs\<lparr>last_status := Some (status_code r),
                         last_retry_after := retry_after r,
                         last_preview := Some (replace_char LF (CHR '' '') (take_chars 200 (body r)))\<rparr>;
               ctype = lower (case content_type r of None \<Rightarrow> [] | Some c \<Rightarrow> c)
           in if is_rate_limited r
              then (Inl (Inl (RateLimited (rate_limited_message ps))), [WaitForSlot, HttpGet])
              else if 500 \<le> status_code r \<and> status_code r < 600
              then (Inr (rs1\<lparr>backoff := min (backoff rs1 * (8 / 5)) 120\<rparr>),
                    [WaitForSlot, HttpGet, SleepPolite (min (max (backoff rs1) 10) 60)])
              else if 400 \<le> status_code r \<and> status_code r < 600
              then (case request_handler rs1 (HTTPError (status_code r)) [WaitForSlot, HttpGet] of
                      (rs', evs) \<Rightarrow> (Inr rs', evs))
              else if \<not> contains ctype ''application/json''
              then (case request_handler rs1 (RuntimeError ''Expected JSON'')
                           [WaitForSlot, HttpGet] of
                      (rs', evs) \<Rightarrow> (Inr rs', evs))
              else (case json r of
                      None \<Rightarrow>
                        (case request_handler rs1 JSONDecodeError
                                [WaitForSlot, HttpGet, SleepPolite 0] of
                           (rs', evs) \<Rightarrow> (Inr rs', evs))
                    | Some payload \<Rightarrow>
                        if is_error_payload payload
                        then (case request_handler rs1 (RuntimeError ''MediaWiki API error'')
                                     [WaitForSlot, HttpGet, SleepPolite 0] of
                                (rs', evs) \<Rightarrow> (Inr rs', evs))
                        else (Inl (Inr payload), [WaitForSlot, HttpGet, SleepPolite 0]))))"

text \<open>
  \<^verbatim>\<open>for attempt in range(1, self.max_retries + 1)\<close>, from \<open>attempt\<close> on; \<open>replies k\<close> is
  what the request of attempt \<open>k\<close> meets.
\<close>

function request_from ::
  "nat \<Rightarrow> (nat \<Rightarrow> reply) \<Rightarrow> params \<Rightarrow> nat \<Rightarrow> retry_state \<Rightarrow> (exn + jv) \<times> event list" where
  "request_from max_retries replies ps attempt rs =
     (if max_retries < attempt
      then (Inl (RetriesExhausted (last_status rs) (last_retry_after rs) (last_preview rs)
                   (last_exc rs)), [])
      else (case request_attempt ps (replies attempt) rs of
              (Inl res, evs) \<Rightarrow> (res, evs)
            | (Inr rs', evs) \<Rightarrow>
                (case request_from max_retries replies ps (attempt + 1) rs' of
                   (res, evs') \<Rightarrow> (res, evs @ evs'))))"
  by pat_completeness auto
termination
  by (relation "measure (\<lambda>(m, replies, ps, attempt, rs). m + 1 - attempt)") auto

text \<open>\<^verbatim>\<open>MediaWikiClient._request\<close>.\<close>

definition request :: "nat \<Rightarrow> (nat \<Rightarrow> reply) \<Rightarrow> params \<Rightarrow> (exn + jv) \<times> event list" where
  "request max_retries replies ps = request_from max_retries replies ps 1 initial_retry_state"

text \<open>
  A reply after which \<^verbatim>\<open>_request\<close> goes on to its next attempt (whether it does
  depends on the reply alone, not on the retry state).
\<close>

definition retried :: "params \<Rightarrow> reply \<Rightarrow> bool" where
  "retried ps rp = (case fst (request_attempt ps rp initial_retry_state) of
                      Inl res \<Rightarrow> False | Inr rs \<Rightarrow> True)"

text \<open>
  One pass of the loop of \<^verbatim>\<open>fetch_full_html\<close>, on the backoff and \<^verbatim>\<open>last_exc\<close>. Its
  handler catches every exception.
\<close>

definition full_html_attempt ::
  "reply \<Rightarrow> rat \<times> exn option \<Rightarrow> (string + rat \<times> exn option) \<times> event list" where
  "full_html_attempt rp st =
     (case st of (b, le) \<Rightarrow>
       (case rp of
          Raises e \<Rightarrow>
            (Inr (min (b * (8 / 5)) 180, Some e),
             [WaitForSlot, HttpGet, Sleep (min (max b 30) 120)])
        | Response r \<Rightarrow>
            if is_rate_limited r
            then (Inr (min (b * (8 / 5)) 180, le),
                  [WaitForSlot, HttpGet, Cooldown (min (max b 60) 180)])
            else if 400 \<le> status_code r \<and> status_code r < 600
            then (Inr (min (b * (8 / 5)) 180, Some (HTTPError (status_code r))),
                  [WaitForSlot, HttpGet, Sleep (min (max b 30) 120)])
            else (Inl (body r), [WaitForSlot, HttpGet, Throttle])))"

function full_html_from ::
  "nat \<Rightarrow> (nat \<Rightarrow> reply) \<Rightarrow> string \<Rightarrow> nat \<Rightarrow> rat \<times> exn option
     \<Rightarrow> (exn + string) \<times> event list" where
  "full_html_from max_retries replies url attempt st =
     (if max_retries < attempt then (Inl (HtmlFetchFailed url (snd st)), [])
      else (case full_html_attempt (replies attempt) st of
              (Inl html, evs) \<Rightarrow> (Inr html, evs)
            | (Inr st', evs) \<Rightarrow>
                (case full_html_from max_retries replies url (attempt + 1) st' of
                   (res, evs') \<Rightarrow> (res, evs @ evs'))))"
  by pat_completeness auto
termination
  by (relation "measure (\<lambda>(m, replies, url, attempt, st). m + 1 - attempt)") auto

text \<open>\<^verbatim>\<open>MediaWikiClient.fetch_full_html\<close>, for the client's \<^verbatim>\<open>wiki_base\<close>.\<close>

definition client_fetch_full_html ::
  "string \<Rightarrow> nat \<Rightarrow> (nat \<Rightarrow> reply) \<Rightarrow> string \<Rightarrow> (exn + string) \<times> event list" where
  "client_fetch_full_html base max_retries replies title_or_path =
     (let url = (if startswith title_or_path ''http'' then title_or_path
                 else base @ ''/'' @ replace_char (CHR '' '') (CHR ''_'') title_or_path)
      in full_html_from max_retries replies url 1 (10, None))"

text \<open>
  \<^verbatim>\<open>MediaWikiClient.fetch_html\<close>: the parse API through \<^verbatim>\<open>_request\<close>, then
  \<^verbatim>\<open>payload.get("parse", {}).get("text", {}).get("*", "")\<close>.
\<close>

fun jv_get :: "jv \<Rightarrow> string \<Rightarrow> jv \<Rightarrow> exn + jv" where
  "jv_get (JObj kvs) key dflt =
     Inr (case map_of (rev kvs) key of None \<Rightarrow> dflt | Some v \<Rightarrow> v)"
| "jv_get v key dflt = Inl AttributeError"

fun jv_truthy :: "jv \<Rightarrow> bool" where
  "jv_truthy JNull = False"
| "jv_truthy (JBool b) = b"
| "jv_truthy (JNum n) = (n \<noteq> 0)"
| "jv_truthy (JStr s) = (s \<noteq> [])"
| "jv_truthy (JArr xs) = (xs \<noteq> [])"
| "jv_truthy (JObj kvs) = (kvs \<noteq> [])"

definition client_fetch_html ::
  "nat \<Rightarrow> (nat \<Rightarrow> reply) \<Rightarrow> string \<Rightarrow> (exn + jv) \<times> event list" where
  "client_fetch_html max_retries replies title =
     (case request max_retries replies
             \<lparr>action = Some ''parse'', list_param = None, page = Some title\<rparr> of
        (Inl e, evs) \<Rightarrow> (Inl e, evs)
      | (Inr payload, evs) \<Rightarrow>
          (case jv_get payload ''parse'' (JObj []) of
             Inl e \<Rightarrow> (Inl e, evs)
           | Inr p \<Rightarrow>
              (case jv_get p ''text'' (JObj []) of
                 Inl e \<Rightarrow> (Inl e, evs)
               | Inr t \<Rightarrow>
                  (case jv_get t ''*'' (JStr []) of
                     Inl e \<Rightarrow> (Inl e, evs)
                   | Inr html \<Rightarrow>
                       if jv_truthy html then (Inr html, evs)
                       else (Inl (RuntimeError ''Empty HTML from parse API''), evs)))))"

section \<open>Concrete inputs\<close>

text \<open>Small inputs on which the theorems below are instantiated.\<close>

definition example_anchors :: "string \<Rightarrow> string list" where
  "example_anchors html =
     [''/leagueoflegends/C'', ''/leagueoflegends/A'', ''/leagueoflegends/Portal:Players'',
      ''/leagueoflegends/B'', ''/leagueoflegends/A'']"

text \<open>
  Another document with the same player links in another order, and with links that
  are not player links.
\<close>

definition example_anchors_more :: "string \<Rightarrow> string list" where
  "example_anchors_more html =
     [''#top'', ''/leagueoflegends/B'', ''/leagueoflegends/Portal:Players'',
      ''/counterstrike/A'', ''/leagueoflegends/A'', ''/leagueoflegends/C'']"

definition fresh_state :: stage_state where
  "fresh_state = \<lparr>conn = \<lparr>pending = init_db, durable = init_db, history = []\<rparr>,
                  files = Map.empty\<rparr>"

definition faker_stints :: "stint list" where
  "faker_stints =
     [\<lparr>team = Some ''SK Telecom T1 K'', joined = Some ''2013-02-06'',
       left = Some ''2014-12-02'', note = None, source_url = Some ''https://w/A''\<rparr>,
      \<lparr>team = Some ''T1'', joined = Some ''2014-12-02'', left = None, note = None,
       source_url = Some ''https://w/A''\<rparr>]"

text \<open>
  A world in which the index page links to \<open>A\<close>, \<open>B\<close> and \<open>C\<close> and every fetch
  succeeds, and two variants: one in which fetching \<open>B\<close> is rate limited, one in which
  the page of \<open>A\<close> comes back empty.
\<close>

definition base_world :: world where
  "base_world =
     \<lparr>sha1_hexdigest = (\<lambda>k. k), linesep = [LF], wiki_base = ''https://w'',
      fetch_html = (\<lambda>t. Inr (''<p>'' @ t)),
      fetch_full_html = (\<lambda>p. Inr ''<index>''),
      parse_player_page = (\<lambda>html url.
         Inr (\<lparr>display_name = Some html, country = None, role = None\<rparr>, faker_stints)),
      find_all_a_href = example_anchors,
      utc_now_item = (\<lambda>i. ''2024-05-01 10:00:00''),
      utc_now_checkpoint = (\<lambda>i. ''2024-05-01 10:00:01''),
      julianday = (\<lambda>s. None)\<rparr>"

definition world_B_rate_limited :: world where
  "world_B_rate_limited =
     base_world\<lparr>fetch_html := (\<lambda>t. if t = ''B'' then Inl (RateLimited ''parse/B'')
                                   else Inr (''<p>'' @ t))\<rparr>"

definition world_A_malformed :: world where
  "world_A_malformed =
     base_world\<lparr>fetch_html := (\<lambda>t. if t = ''A'' then Inl (RuntimeError ''Empty HTML'')
                                   else Inr (''<p>'' @ t))\<rparr>"

definition cfg_two_players :: config where
  "cfg_two_players = \<lparr>player_index_page = None, cache_dir = None, max_players = Some 2\<rparr>"

definition cfg_default :: config where
  "cfg_default = \<lparr>player_index_page = None, cache_dir = None, max_players = None\<rparr>"

text \<open>
  A database with the player \<open>A\<close> and the two stints of the example, and one in which
  \<open>A\<close> has the first of them and one whose page gave no date but \<^verbatim>\<open>Present\<close>.
\<close>

definition player_A :: profile where
  "player_A = \<lparr>display_name = Some ''A'', country = None, role = None\<rparr>"

definition db_A :: db where
  "db_A = upsert_player init_db ''A'' ''https://w/A'' player_A ''2024-05-01 10:00:00''"

definition db_A_stints :: db where
  "db_A_stints =
     db_A\<lparr>team_stints := map (stint_row_of ''A'' ''2024-05-01 10:00:00'') faker_stints\<rparr>"

definition undated_stint :: stint where
  "undated_stint = \<lparr>team = Some ''T1 Academy'', joined = None, left = None, note = None,
                     source_url = Some ''https://w/A''\<rparr>"

definition db_A_undated :: db where
  "db_A_undated =
     db_A\<lparr>team_stints := map (stint_row_of ''A'' ''2024-05-01 10:00:00'')
                              [hd faker_stints, undated_stint]\<rparr>"

definition connection_on :: "db \<Rightarrow> connection" where
  "connection_on d = \<lparr>pending = d, durable = d, history = []\<rparr>"

text \<open>A world that knows the Julian day numbers of the dates of the example.\<close>

definition careers_world :: world where
  "careers_world =
     base_world\<lparr>julianday := (\<lambda>s.
        if s = ''2013-02-06'' then Some (4912659 / 2)
        else if s = ''2014-12-02'' then Some (4913987 / 2)
        else if s = ''2024-05-01'' then Some (4920863 / 2)
        else None)\<rparr>"

text \<open>Inserting the same row twice.\<close>

definition insert_stint_twice :: "db \<Rightarrow> stint_row \<Rightarrow> exn + db" where
  "insert_stint_twice d r =
     (case insert_or_ignore_stint d r of
        Inl e \<Rightarrow> Inl e
      | Inr d' \<Rightarrow> insert_or_ignore_stint d' r)"

definition stint_count :: "exn + db \<Rightarrow> nat option" where
  "stint_count res = (case res of Inl e \<Rightarrow> None | Inr d \<Rightarrow> Some (length (team_stints d)))"

text \<open>Replies of a server that answers every request with status 429.\<close>

definition response_429 :: response where
  "response_429 = \<lparr>status_code = 429, body = ''Too Many Requests'', retry_after = None,
                    content_type = Some ''text/html'', json = None\<rparr>"

definition always_429 :: "nat \<Rightarrow> reply" where
  "always_429 k = Response response_429"

text \<open>A server error on the first request, the block page on the second.\<close>

definition reply_503 :: reply where
  "reply_503 = Response \<lparr>status_code = 503, body = ''Service Unavailable'', retry_after = None,
                          content_type = Some ''text/html'', json = None\<rparr>"

definition block_page :: response where
  "block_page =
     \<lparr>status_code = 200, body = ''<title>Rate Limited - Liquipedia</title>'',
      retry_after = None, content_type = Some ''text/html'', json = None\<rparr>"

definition error_then_blocked :: "nat \<Rightarrow> reply" where
  "error_then_blocked k = (if k = 1 then reply_503 else Response block_page)"

definition parse_params :: params where
  "parse_params = \<lparr>action = Some ''parse'', list_param = None, page = Some ''Faker''\<rparr>"

text \<open>
  Four calls on a limiter for two requests in ten seconds: the third and the fourth find
  the queue full and sleep.
\<close>

definition example_ticks :: "tick list" where
  "example_ticks =
     [\<lparr>gap = 0, jitter = 1 / 2, overshoot = 0\<rparr>, \<lparr>gap = 1, jitter = 1 / 2, overshoot = 0\<rparr>,
      \<lparr>gap = 1, jitter = 1 / 2, overshoot = 0\<rparr>, \<lparr>gap = 0, jitter = 3, overshoot = 1\<rparr>]"

section \<open>Properties\<close>

subsection \<open>Discovery\<close>

lemma finite_fold_add_href: "finite S \<Longrightarrow> finite (fold add_href hs S)"
  by (induction hs arbitrary: S) (auto simp: add_href_def Let_def split: option.splits)

lemma fold_add_href_set:
  "fold add_href hs S = fold add_href [] S \<union> (\<Union>h \<in> set hs. add_href h {})"
proof (induction hs arbitrary: S)
  case Nil
  show ?case by simp
next
  case (Cons h hs)
  have step: "add_href h S = S \<union> add_href h {}"
    by (auto simp: add_href_def Let_def split: option.splits)
  have "fold add_href (h # hs) S = fold add_href hs (add_href h S)" by simp
  also have "\<dots> = add_href h S \<union> (\<Union>k \<in> set hs. add_href k {})"
    using Cons.IH [of "add_href h S"] by simp
  also have "\<dots> = S \<union> (\<Union>k \<in> set (h # hs). add_href k {})"
    using step by auto
  finally show ?case by simp
qed

lemma add_href_filtered:
  "t \<in> add_href h S \<Longrightarrow> t \<notin> S \<Longrightarrow>
     CHR '':'' \<notin> set t \<and> CHR ''/'' \<notin> set t
     \<and> \<not> startswith_any (lower t) non_player_prefixes"
  by (auto simp: add_href_def Let_def split: option.splits if_splits)

lemma fold_add_href_filtered:
  "t \<in> fold add_href hs {} \<Longrightarrow>
     CHR '':'' \<notin> set t \<and> CHR ''/'' \<notin> set t
     \<and> \<not> startswith_any (lower t) non_player_prefixes"
proof -
  assume "t \<in> fold add_href hs {}"
  then obtain h where "t \<in> add_href h {}"
    using fold_add_href_set [of hs "{}"] by auto
  then show ?thesis using add_href_filtered [of t h "{}"] by simp
qed

lemma discover_set:
  "set (discover_player_titles_from_html f html) = fold add_href (f html) {}"
  by (simp add: discover_player_titles_from_html_def finite_fold_add_href)

lemma discover_sorted: "sorted (discover_player_titles_from_html f html)"
  by (simp add: discover_player_titles_from_html_def)

lemma discover_distinct: "distinct (discover_player_titles_from_html f html)"
  by (simp add: discover_player_titles_from_html_def)

lemma discover_order_independent:
  "set (f html) = set (g html') \<Longrightarrow>
     discover_player_titles_from_html f html = discover_player_titles_from_html g html'"
proof -
  assume eq: "set (f html) = set (g html')"
  have "fold add_href (f html) {} = (\<Union>h \<in> set (f html). add_href h {})"
    using fold_add_href_set [of "f html" "{}"] by simp
  moreover have "fold add_href (g html') {} = (\<Union>h \<in> set (g html'). add_href h {})"
    using fold_add_href_set [of "g html'" "{}"] by simp
  ultimately show ?thesis
    by (simp add: discover_player_titles_from_html_def eq)
qed

lemma match_player_href_iff:
  "(match_player_href h = Some g) =
     (h = ''/leagueoflegends/'' @ g \<and> g \<noteq> [] \<and> CHR ''#'' \<notin> set g \<and> CHR ''?'' \<notin> set g)"
proof
  assume m: "match_player_href h = Some g"
  then have g: "g = drop (length ''/leagueoflegends/'') h"
    and p: "take (length ''/leagueoflegends/'') h = ''/leagueoflegends/''"
    and rest: "g \<noteq> []" "CHR ''#'' \<notin> set g" "CHR ''?'' \<notin> set g"
    by (auto simp: match_player_href_def startswith_def Let_def split: if_splits)
  have "h = take (length ''/leagueoflegends/'') h @ drop (length ''/leagueoflegends/'') h"
    by (rule append_take_drop_id [symmetric])
  then have "h = ''/leagueoflegends/'' @ g" using g p by metis
  then show "h = ''/leagueoflegends/'' @ g \<and> g \<noteq> [] \<and> CHR ''#'' \<notin> set g \<and> CHR ''?'' \<notin> set g"
    using rest by simp
next
  assume "h = ''/leagueoflegends/'' @ g \<and> g \<noteq> [] \<and> CHR ''#'' \<notin> set g \<and> CHR ''?'' \<notin> set g"
  then show "match_player_href h = Some g"
    by (simp add: match_player_href_def startswith_def Let_def)
qed

lemma add_href_empty:
  "add_href h {} =
     {t. \<exists>g. match_player_href h = Some g \<and> t = replace_char (CHR ''_'') (CHR '' '') g
            \<and> CHR '':'' \<notin> set t \<and> CHR ''/'' \<notin> set t
            \<and> \<not> startswith_any (lower t) non_player_prefixes}"
  by (auto simp: add_href_def Let_def split: option.splits)

lemma discover_titles_set:
  "set (discover_player_titles_from_html f html) =
     {t. \<exists>h \<in> set (f html). \<exists>g.
          h = ''/leagueoflegends/'' @ g \<and> g \<noteq> [] \<and> CHR ''#'' \<notin> set g \<and> CHR ''?'' \<notin> set g
          \<and> t = replace_char (CHR ''_'') (CHR '' '') g
          \<and> CHR '':'' \<notin> set t \<and> CHR ''/'' \<notin> set t
          \<and> \<not> startswith_any (lower t) [''portal'', ''help'', ''special'', ''category'']}"
proof -
  have "set (discover_player_titles_from_html f html) = (\<Union>h \<in> set (f html). add_href h {})"
    using discover_set [of f html] fold_add_href_set [of "f html" "{}"] by simp
  also have "\<dots> = {t. \<exists>h \<in> set (f html). \<exists>g. match_player_href h = Some g
            \<and> t = replace_char (CHR ''_'') (CHR '' '') g
            \<and> CHR '':'' \<notin> set t \<and> CHR ''/'' \<notin> set t
            \<and> \<not> startswith_any (lower t) non_player_prefixes}"
    unfolding add_href_empty by blast
  finally show ?thesis
    unfolding match_player_href_iff non_player_prefixes_def by simp
qed

lemma discover_matching_only:
  assumes "set (filter (\<lambda>h. match_player_href h \<noteq> None) (f html))
             = set (filter (\<lambda>h. match_player_href h \<noteq> None) (g html'))"
  shows "discover_player_titles_from_html f html = discover_player_titles_from_html g html'"
proof -
  have u: "\<And>xs. (\<Union>h \<in> set xs. add_href h {})
             = (\<Union>h \<in> set (filter (\<lambda>h. match_player_href h \<noteq> None) xs). add_href h {})"
    unfolding add_href_empty by auto
  have "fold add_href (f html) {} = (\<Union>h \<in> set (f html). add_href h {})"
    using fold_add_href_set [of "f html" "{}"] by simp
  moreover have "fold add_href (g html') {} = (\<Union>h \<in> set (g html'). add_href h {})"
    using fold_add_href_set [of "g html'" "{}"] by simp
  ultimately have "fold add_href (f html) {} = fold add_href (g html') {}"
    using u [of "f html"] u [of "g html'"] assms by simp
  then show ?thesis by (simp add: discover_player_titles_from_html_def)
qed

text \<open>
  C10. For every document, the discovered titles are sorted ascending and free of
  duplicates, and they are exactly the titles of the links that match
  \<^verbatim>\<open>/leagueoflegends/<title>\<close> (a non-empty rest without \<open>#\<close> and \<open>?\<close>), with
  underscores turned into spaces, that contain no colon and no slash and do not start,
  after lowering, with portal, help, special or category. So the list is determined by
  the set of matching links: two documents whose matching links are the same, in any
  order, with any repetition and among any other links, yield the same list.
\<close>

theorem discover_titles_sorted_distinct_filtered:
  "sorted (discover_player_titles_from_html f html)
   \<and> distinct (discover_player_titles_from_html f html)
   \<and> set (discover_player_titles_from_html f html) =
       {t. \<exists>h \<in> set (f html). \<exists>g.
          h = ''/leagueoflegends/'' @ g \<and> g \<noteq> [] \<and> CHR ''#'' \<notin> set g \<and> CHR ''?'' \<notin> set g
          \<and> t = replace_char (CHR ''_'') (CHR '' '') g
          \<and> CHR '':'' \<notin> set t \<and> CHR ''/'' \<notin> set t
          \<and> \<not> startswith_any (lower t) [''portal'', ''help'', ''special'', ''category'']}
   \<and> (\<forall>t \<in> set (discover_player_titles_from_html f html).
         CHR '':'' \<notin> set t \<and> CHR ''/'' \<notin> set t
         \<and> \<not> startswith_any (lower t) [''portal'', ''help'', ''special'', ''category''])
   \<and> (set (filter (\<lambda>h. match_player_href h \<noteq> None) (f html))
          = set (filter (\<lambda>h. match_player_href h \<noteq> None) (g html')) \<longrightarrow>
         discover_player_titles_from_html f html = discover_player_titles_from_html g html')"
proof -
  have "\<forall>t \<in> set (discover_player_titles_from_html f html).
         CHR '':'' \<notin> set t \<and> CHR ''/'' \<notin> set t
         \<and> \<not> startswith_any (lower t) [''portal'', ''help'', ''special'', ''category'']"
    using fold_add_href_filtered [of _ "f html"]
    unfolding discover_set non_player_prefixes_def by blast
  then show ?thesis
    using discover_sorted [of f html] discover_distinct [of f html]
      discover_titles_set [of f html] discover_matching_only [of f html g html']
    by blast
qed

theorem discover_titles_witness:
  "discover_player_titles_from_html example_anchors ''<index>'' = [''A'', ''B'', ''C'']
   \<and> set (filter (\<lambda>h. match_player_href h \<noteq> None) (example_anchors ''<index>''))
       = set (filter (\<lambda>h. match_player_href h \<noteq> None) (example_anchors_more ''<other>''))
   \<and> set (example_anchors ''<index>'') \<noteq> set (example_anchors_more ''<other>'')
   \<and> discover_player_titles_from_html example_anchors_more ''<other>'' = [''A'', ''B'', ''C'']
   \<and> list_all (\<lambda>t. CHR '':'' \<notin> set t \<and> CHR ''/'' \<notin> set t
         \<and> \<not> startswith_any (lower t) [''portal'', ''help'', ''special'', ''category''])
       [''A'', ''B'', ''C'']"
proof -
  have ev: "discover_player_titles_from_html example_anchors ''<index>'' = [''A'', ''B'', ''C'']"
    by code_simp
  have m1: "filter (\<lambda>h. match_player_href h \<noteq> None) (example_anchors ''<index>'')
             = [''/leagueoflegends/C'', ''/leagueoflegends/A'', ''/leagueoflegends/Portal:Players'',
                ''/leagueoflegends/B'', ''/leagueoflegends/A'']"
    by code_simp
  have m2: "filter (\<lambda>h. match_player_href h \<noteq> None) (example_anchors_more ''<other>'')
             = [''/leagueoflegends/B'', ''/leagueoflegends/Portal:Players'',
                ''/leagueoflegends/A'', ''/leagueoflegends/C'']"
    by code_simp
  have same: "set (filter (\<lambda>h. match_player_href h \<noteq> None) (example_anchors ''<index>''))
       = set (filter (\<lambda>h. match_player_href h \<noteq> None) (example_anchors_more ''<other>''))"
    unfolding m1 m2 by auto
  have diff: "set (example_anchors ''<index>'') \<noteq> set (example_anchors_more ''<other>'')"
  proof
    assume "set (example_anchors ''<index>'') = set (example_anchors_more ''<other>'')"
    moreover have "''#top'' \<in> set (example_anchors_more ''<other>'')"
      by (simp add: example_anchors_more_def)
    ultimately have "''#top'' \<in> set (example_anchors ''<index>'')" by simp
    then show False by (simp add: example_anchors_def)
  qed
  note T = discover_titles_sorted_distinct_filtered
             [of example_anchors "''<index>''" example_anchors_more "''<other>''"]
  have a: "\<forall>t \<in> set (discover_player_titles_from_html example_anchors ''<index>'').
         CHR '':'' \<notin> set t \<and> CHR ''/'' \<notin> set t
         \<and> \<not> startswith_any (lower t) [''portal'', ''help'', ''special'', ''category'']"
    using T by blast
  have b: "discover_player_titles_from_html example_anchors_more ''<other>''
           = discover_player_titles_from_html example_anchors ''<index>''"
    using T same by simp
  have la: "list_all (\<lambda>t. CHR '':'' \<notin> set t \<and> CHR ''/'' \<notin> set t
         \<and> \<not> startswith_any (lower t) [''portal'', ''help'', ''special'', ''category''])
       [''A'', ''B'', ''C'']"
    using a unfolding ev list_all_iff .
  show ?thesis
    using ev same diff b la by simp
qed

subsection \<open>Checkpoints and commits\<close>

lemma set_checkpoint_get: "get_checkpoint (set_checkpoint c k v now) k = Some v"
  by (simp add: get_checkpoint_def set_checkpoint_def commit_def checkpoint_of_def)

lemma set_checkpoint_durable:
  "durable (set_checkpoint c k v now) = pending (set_checkpoint c k v now)"
  by (simp add: set_checkpoint_def commit_def)

lemma set_checkpoint_tables:
  "players (pending (set_checkpoint c k v now)) = players (pending c)"
  "team_stints (pending (set_checkpoint c k v now)) = team_stints (pending c)"
  "player_careers (pending (set_checkpoint c k v now)) = player_careers (pending c)"
  by (simp_all add: set_checkpoint_def commit_def)

lemma set_checkpoint_value:
  "checkpoint_of (durable (set_checkpoint c k v now)) k = Some v"
  by (simp add: set_checkpoint_def commit_def checkpoint_of_def)

lemma set_checkpoint_cursor: "cursor (pending (set_checkpoint c done_key v now)) = v"
  by (simp add: cursor_def set_checkpoint_def commit_def checkpoint_of_def)

lemma set_checkpoint_history:
  "history (set_checkpoint c k v now) = history c @ [pending (set_checkpoint c k v now)]"
  by (simp add: set_checkpoint_def commit_def)

lemma loop_unfold:
  "i < int (length titles) \<Longrightarrow>
     players_loop w dir titles i st =
       (case process_item w dir titles i st of
          Halt out st' evs \<Rightarrow> (out, st', evs)
        | Next st' ev \<Rightarrow>
            (case players_loop w dir titles (i + 1) st' of
               (out, st'', evs) \<Rightarrow> (out, st'', ev # evs)))"
  by (subst players_loop.simps) simp

lemma loop_done: "\<not> i < int (length titles) \<Longrightarrow> players_loop w dir titles i st = (Done, st, [])"
  by (subst players_loop.simps) simp

declare players_loop.simps [simp del]

subsection \<open>The player stage, item by item\<close>

text \<open>
  C2. When the fetch of the item at index \<open>i\<close> raises \<open>RateLimited\<close>, the stage ends there
  with outcome \<open>Aborted\<close>: the only thing it does is to set the checkpoint to \<open>i\<close> and
  commit it; no further item is processed and no row is written.
\<close>

theorem rate_limited_item_stops_stage:
  assumes idx: "i < int (length titles)" "py_index titles i = Inr title"
    and rl: "fetch_player_overview_html w (files st) title dir = (Inl (RateLimited m), fs)"
  shows "players_loop w dir titles i st =
           (Aborted,
            \<lparr>conn = set_checkpoint (conn st) done_key i (utc_now_checkpoint w i), files = fs\<rparr>,
            [Stopped i (RateLimited m)])
         \<and> checkpoint_of (durable (conn (fst (snd (players_loop w dir titles i st))))) done_key
             = Some i
         \<and> get_checkpoint (conn (fst (snd (players_loop w dir titles i st)))) done_key = Some i
         \<and> players (pending (conn (fst (snd (players_loop w dir titles i st)))))
             = players (pending (conn st))
         \<and> team_stints (pending (conn (fst (snd (players_loop w dir titles i st)))))
             = team_stints (pending (conn st))"
proof -
  let ?st' = "\<lparr>conn = set_checkpoint (conn st) done_key i (utc_now_checkpoint w i), files = fs\<rparr>"
  have tb: "try_block w (files st) title (mw_page_url w title) dir = (Inl (RateLimited m), fs)"
    using rl by (simp add: try_block_def)
  have "process_item w dir titles i st = Halt Aborted ?st' [Stopped i (RateLimited m)]"
    using idx tb by (simp add: process_item_def)
  then have "players_loop w dir titles i st = (Aborted, ?st', [Stopped i (RateLimited m)])"
    using idx by (simp add: loop_unfold)
  then show ?thesis
    by (simp add: set_checkpoint_get set_checkpoint_tables set_checkpoint_value)
qed

theorem rate_limited_item_witness:
  "(1::int) < int (length [''A'', ''B''])
   \<and> py_index [''A'', ''B''] 1 = Inr ''B''
   \<and> fst (fetch_player_overview_html world_B_rate_limited (files fresh_state) ''B'' ''.cache_html'')
       = Inl (RateLimited ''parse/B'')
   \<and> fst (players_loop world_B_rate_limited ''.cache_html'' [''A'', ''B''] 1 fresh_state) = Aborted
   \<and> snd (snd (players_loop world_B_rate_limited ''.cache_html'' [''A'', ''B''] 1 fresh_state))
       = [Stopped 1 (RateLimited ''parse/B'')]
   \<and> get_checkpoint
        (conn (fst (snd (players_loop world_B_rate_limited ''.cache_html'' [''A'', ''B''] 1
                          fresh_state)))) done_key = Some 1"
proof -
  have h1: "(1::int) < int (length [''A'', ''B''])" by simp
  have h2: "py_index [''A'', ''B''] 1 = Inr ''B''" by (simp add: py_index_def)
  have h3: "fetch_player_overview_html world_B_rate_limited (files fresh_state) ''B'' ''.cache_html''
              = (Inl (RateLimited ''parse/B''), files fresh_state)"
    by (simp add: fetch_player_overview_html_def cache_get_def fresh_state_def
        world_B_rate_limited_def base_world_def)
  note T = rate_limited_item_stops_stage [OF h1 h2 h3]
  have a: "players_loop world_B_rate_limited ''.cache_html'' [''A'', ''B''] 1 fresh_state =
             (Aborted,
              \<lparr>conn = set_checkpoint (conn fresh_state) done_key 1
                        (utc_now_checkpoint world_B_rate_limited 1),
               files = files fresh_state\<rparr>,
              [Stopped 1 (RateLimited ''parse/B'')])"
    using T by (rule conjunct1)
  have b: "get_checkpoint
        (conn (fst (snd (players_loop world_B_rate_limited ''.cache_html'' [''A'', ''B''] 1
                          fresh_state)))) done_key = Some 1"
    using T by blast
  have c: "fst (players_loop world_B_rate_limited ''.cache_html'' [''A'', ''B''] 1 fresh_state)
             = Aborted"
    and d: "snd (snd (players_loop world_B_rate_limited ''.cache_html'' [''A'', ''B''] 1 fresh_state))
             = [Stopped 1 (RateLimited ''parse/B'')]"
    by (simp_all only: a fst_conv snd_conv)
  have h3': "fst (fetch_player_overview_html world_B_rate_limited (files fresh_state) ''B''
                   ''.cache_html'') = Inl (RateLimited ''parse/B'')"
    by (simp only: h3 fst_conv)
  show ?thesis
    using h1 h2 h3' b c d by blast
qed

text \<open>
  C6. When the \<^verbatim>\<open>try\<close> block of the item at index \<open>i\<close> raises an exception that is not
  \<open>RateLimited\<close>, the stage commits the checkpoint \<open>i + 1\<close>, leaves \<open>players\<close> and
  \<open>team_stints\<close> as they were, and goes on with index \<open>i + 1\<close>.
\<close>

theorem failed_item_is_skipped:
  assumes idx: "i < int (length titles)" "py_index titles i = Inr title"
    and err: "try_block w (files st) title (mw_page_url w title) dir = (Inl e, fs)"
    and nrl: "\<not> is_RateLimited e"
  shows "players_loop w dir titles i st =
           (case players_loop w dir titles (i + 1)
                   \<lparr>conn = set_checkpoint (conn st) done_key (i + 1) (utc_now_checkpoint w i),
                    files = fs\<rparr> of
              (out, st'', evs) \<Rightarrow> (out, st'', Skipped i e # evs))
         \<and> get_checkpoint (set_checkpoint (conn st) done_key (i + 1) (utc_now_checkpoint w i))
              done_key = Some (i + 1)
         \<and> durable (set_checkpoint (conn st) done_key (i + 1) (utc_now_checkpoint w i))
             = pending (set_checkpoint (conn st) done_key (i + 1) (utc_now_checkpoint w i))
         \<and> players (pending (set_checkpoint (conn st) done_key (i + 1) (utc_now_checkpoint w i)))
             = players (pending (conn st))
         \<and> team_stints (pending (set_checkpoint (conn st) done_key (i + 1) (utc_now_checkpoint w i)))
             = team_stints (pending (conn st))"
proof -
  let ?st' = "\<lparr>conn = set_checkpoint (conn st) done_key (i + 1) (utc_now_checkpoint w i), files = fs\<rparr>"
  have "process_item w dir titles i st = Next ?st' (Skipped i e)"
    using idx err nrl by (simp add: process_item_def)
  then have "players_loop w dir titles i st =
              (case players_loop w dir titles (i + 1) ?st' of
                 (out, st'', evs) \<Rightarrow> (out, st'', Skipped i e # evs))"
    using idx by (simp add: loop_unfold)
  then show ?thesis
    by (simp add: set_checkpoint_get set_checkpoint_durable set_checkpoint_tables)
qed

theorem failed_item_witness:
  "(0::int) < int (length [''A'', ''B''])
   \<and> py_index [''A'', ''B''] 0 = Inr ''A''
   \<and> fst (try_block world_A_malformed (files fresh_state) ''A''
            (mw_page_url world_A_malformed ''A'') ''.cache_html'') = Inl (RuntimeError ''Empty HTML'')
   \<and> \<not> is_RateLimited (RuntimeError ''Empty HTML'')
   \<and> fst (players_loop world_A_malformed ''.cache_html'' [''A'', ''B''] 0 fresh_state) = Done
   \<and> map event_index
        (snd (snd (players_loop world_A_malformed ''.cache_html'' [''A'', ''B''] 0 fresh_state)))
       = [0, 1]
   \<and> hd (snd (snd (players_loop world_A_malformed ''.cache_html'' [''A'', ''B''] 0 fresh_state)))
       = Skipped 0 (RuntimeError ''Empty HTML'')"
proof -
  have h1: "(0::int) < int (length [''A'', ''B''])" by simp
  have h2: "py_index [''A'', ''B''] 0 = Inr ''A''" by (simp add: py_index_def)
  have h3: "try_block world_A_malformed (files fresh_state) ''A''
             (mw_page_url world_A_malformed ''A'') ''.cache_html''
              = (Inl (RuntimeError ''Empty HTML''), files fresh_state)"
    by (simp add: try_block_def fetch_player_overview_html_def cache_get_def fresh_state_def
        world_A_malformed_def base_world_def)
  have h4: "\<not> is_RateLimited (RuntimeError ''Empty HTML'')" by simp
  define r where "r = players_loop world_A_malformed ''.cache_html'' [''A'', ''B''] (0 + 1)
                 \<lparr>conn = set_checkpoint (conn fresh_state) done_key (0 + 1)
                           (utc_now_checkpoint world_A_malformed 0),
                  files = files fresh_state\<rparr>"
  have r1: "fst r = Done" unfolding r_def by code_simp
  have r2: "snd (snd r) = [Stored 1 ''B''
                \<lparr>display_name = Some ''<p>B'', country = None, role = None\<rparr> faker_stints]"
    unfolding r_def by code_simp
  have eq: "players_loop world_A_malformed ''.cache_html'' [''A'', ''B''] 0 fresh_state =
              (case r of (out, st'', evs) \<Rightarrow>
                 (out, st'', Skipped 0 (RuntimeError ''Empty HTML'') # evs))"
    using failed_item_is_skipped [OF h1 h2 h3 h4] unfolding r_def by (rule conjunct1)
  have c: "fst (players_loop world_A_malformed ''.cache_html'' [''A'', ''B''] 0 fresh_state) = Done"
    and d: "snd (snd (players_loop world_A_malformed ''.cache_html'' [''A'', ''B''] 0 fresh_state))
             = [Skipped 0 (RuntimeError ''Empty HTML''), Stored 1 ''B''
                \<lparr>display_name = Some ''<p>B'', country = None, role = None\<rparr> faker_stints]"
    using r1 r2 unfolding eq by (cases r; simp)+
  have h3': "fst (try_block world_A_malformed (files fresh_state) ''A''
            (mw_page_url world_A_malformed ''A'') ''.cache_html'') = Inl (RuntimeError ''Empty HTML'')"
    by (simp only: h3 fst_conv)
  show ?thesis
    using h1 h2 h3' h4 c unfolding d by simp
qed


subsection \<open>Truncation of the work list\<close>

text \<open>
  C9. Once the index page is there, the stage runs its loop on the first
  \<open>max_players\<close> discovered titles when \<open>max_players\<close> is positive and on all of them
  when it is \<open>0\<close>; \<open>0\<close> is what \<^verbatim>\<open>load_config\<close> and the stage take for an absent entry.
\<close>

theorem max_players_truncates_work_list:
  assumes idx: "fetch_index_html w (files st) (cfg_index_page cfg) (cfg_cache_dir cfg)
                  = (Inr html, fs)"
  shows "(0 < cfg_max_players cfg \<longrightarrow>
            run w cfg st =
              players_loop w (cfg_cache_dir cfg)
                (take (nat (cfg_max_players cfg))
                   (discover_player_titles_from_html (find_all_a_href w) html))
                (cursor (pending (conn st))) (st\<lparr>files := fs\<rparr>))
         \<and> (cfg_max_players cfg = 0 \<longrightarrow>
            run w cfg st =
              players_loop w (cfg_cache_dir cfg)
                (discover_player_titles_from_html (find_all_a_href w) html)
                (cursor (pending (conn st))) (st\<lparr>files := fs\<rparr>))
         \<and> (max_players cfg = None \<longrightarrow>
              cfg_max_players cfg = 0 \<and> max_players (load_config cfg) = Some 0)
         \<and> (\<forall>n. max_players cfg = Some n \<longrightarrow>
              cfg_max_players cfg = n \<and> load_config cfg = cfg)"
  using idx
  by (simp add: run_def truncate_titles_def cfg_max_players_def load_config_def)

theorem max_players_witness:
  "fst (fetch_index_html base_world (files fresh_state) (cfg_index_page cfg_two_players)
          (cfg_cache_dir cfg_two_players)) = Inr ''<index>''
   \<and> 0 < cfg_max_players cfg_two_players
   \<and> take (nat (cfg_max_players cfg_two_players))
        (discover_player_titles_from_html (find_all_a_href base_world) ''<index>'') = [''A'', ''B'']
   \<and> map event_index (snd (snd (run base_world cfg_two_players fresh_state))) = [0, 1]
   \<and> max_players cfg_default = None
   \<and> cfg_max_players cfg_default = 0
   \<and> max_players (load_config cfg_default) = Some 0
   \<and> map event_index (snd (snd (run base_world cfg_default fresh_state))) = [0, 1, 2]"
proof -
  define fs where "fs = snd (fetch_index_html base_world (files fresh_state)
                               (cfg_index_page cfg_two_players) (cfg_cache_dir cfg_two_players))"
  have i1: "fst (fetch_index_html base_world (files fresh_state) (cfg_index_page cfg_two_players)
                  (cfg_cache_dir cfg_two_players)) = Inr ''<index>''"
    by (simp add: fetch_index_html_def cache_get_def fresh_state_def base_world_def)
  have h: "fetch_index_html base_world (files fresh_state) (cfg_index_page cfg_two_players)
             (cfg_cache_dir cfg_two_players) = (Inr ''<index>'', fs)"
    unfolding fs_def using i1 by (metis prod.collapse)
  note T = max_players_truncates_work_list [OF h]
  have pos: "0 < cfg_max_players cfg_two_players"
    by (simp add: cfg_max_players_def cfg_two_players_def)
  have tk: "take (nat (cfg_max_players cfg_two_players))
              (discover_player_titles_from_html (find_all_a_href base_world) ''<index>'')
            = [''A'', ''B'']"
    by code_simp
  have "run base_world cfg_two_players fresh_state =
          players_loop base_world (cfg_cache_dir cfg_two_players) [''A'', ''B'']
            (cursor (pending (conn fresh_state))) (fresh_state\<lparr>files := fs\<rparr>)"
    using T pos unfolding tk by blast
  moreover have "map event_index (snd (snd (players_loop base_world (cfg_cache_dir cfg_two_players)
            [''A'', ''B''] (cursor (pending (conn fresh_state))) (fresh_state\<lparr>files := fs\<rparr>)))) = [0, 1]"
    unfolding fs_def by code_simp
  ultimately have r2: "map event_index (snd (snd (run base_world cfg_two_players fresh_state))) = [0, 1]"
    by simp
  have dn: "max_players cfg_default = None" by (simp add: cfg_default_def)
  have d0: "cfg_max_players cfg_default = 0" by (simp add: cfg_default_def cfg_max_players_def)
  have dl: "max_players (load_config cfg_default) = Some 0"
    by (simp add: cfg_default_def load_config_def)
  have r3: "map event_index (snd (snd (run base_world cfg_default fresh_state))) = [0, 1, 2]"
    by code_simp
  show ?thesis using i1 pos tk r2 dn d0 dl r3 by blast
qed


subsection \<open>Commit before checkpoint\<close>

lemma unique_eq_same: "unique_eq a b \<Longrightarrow> a = b"
  by (cases a; cases b) auto

lemma unique_conflict_same_stint:
  "unique_conflict r (stint_row_of title now s) \<Longrightarrow> same_stint title s r"
  by (auto simp: unique_conflict_def same_stint_def stint_row_of_def dest: unique_eq_same)

lemma insert_or_ignore_stint_effect:
  assumes "insert_or_ignore_stint d (stint_row_of title now s) = Inr d'"
  shows "players d' = players d \<and> checkpoints d' = checkpoints d
         \<and> player_careers d' = player_careers d
         \<and> set (team_stints d) \<subseteq> set (team_stints d')
         \<and> list_ex (same_stint title s) (team_stints d')"
proof (cases "list_ex (\<lambda>r. unique_conflict r (stint_row_of title now s)) (team_stints d)")
  case True
  then obtain r where "r \<in> set (team_stints d)" "unique_conflict r (stint_row_of title now s)"
    by (auto simp: list_ex_iff)
  then have "list_ex (same_stint title s) (team_stints d)"
    unfolding list_ex_iff using unique_conflict_same_stint by blast
  moreover have "d' = d"
    using assms True by (simp add: insert_or_ignore_stint_def split: if_splits)
  ultimately show ?thesis by simp
next
  case False
  then have "d' = d\<lparr>team_stints := team_stints d @ [stint_row_of title now s]\<rparr>"
    using assms by (simp add: insert_or_ignore_stint_def split: if_splits)
  moreover have "same_stint title s (stint_row_of title now s)"
    by (simp add: same_stint_def stint_row_of_def)
  ultimately show ?thesis by (auto simp: list_ex_iff)
qed

lemma insert_stints_effect:
  "insert_stints d title now ss = Inr d' \<Longrightarrow>
     players d' = players d \<and> checkpoints d' = checkpoints d
     \<and> player_careers d' = player_careers d
     \<and> set (team_stints d) \<subseteq> set (team_stints d')
     \<and> list_all (\<lambda>s. list_ex (same_stint title s) (team_stints d')) ss"
proof (induction ss arbitrary: d)
  case Nil
  then show ?case by simp
next
  case (Cons s ss)
  from Cons.prems obtain d1 where
    one: "insert_or_ignore_stint d (stint_row_of title now s) = Inr d1"
    and rest: "insert_stints d1 title now ss = Inr d'"
    by (auto split: sum.splits)
  note e1 = insert_or_ignore_stint_effect [OF one]
  note e2 = Cons.IH [OF rest]
  have "list_ex (same_stint title s) (team_stints d')"
    using e1 e2 by (auto simp: list_ex_iff)
  then show ?case using e1 e2 by auto
qed

lemma item_stored_persists:
  assumes "item_stored d title url p ss"
    and "players d' title = players d title"
    and "set (team_stints d) \<subseteq> set (team_stints d')"
  shows "item_stored d' title url p ss"
  using assms unfolding item_stored_def list_all_iff list_ex_iff
  by (simp split: option.splits) blast

lemma upsert_player_effect:
  "players (upsert_player d title url p now) t =
     (if t = title
      then Some \<lparr>display_name = display_name p, country = country p, role = role p,
                 page_url = url,
                 created_utc = (case players d title of None \<Rightarrow> now
                                | Some old \<Rightarrow> player_row.created_utc old),
                 updated_utc = now\<rparr>
      else players d t)"
  "team_stints (upsert_player d title url p now) = team_stints d"
  "checkpoints (upsert_player d title url p now) = checkpoints d"
  by (simp_all add: upsert_player_def Let_def)

lemma cursor_checkpoints: "checkpoints d = checkpoints d' \<Longrightarrow> cursor d = cursor d'"
  by (simp add: cursor_def checkpoint_of_def)

text \<open>The loop body when the item is stored: two commits, the rows first.\<close>

lemma process_item_stored:
  assumes idx: "0 \<le> i" "i < int (length titles)"
    and ok: "try_block w (files st) (titles ! nat i) (mw_page_url w (titles ! nat i)) dir
               = (Inr (p, ss), fs)"
    and nx: "process_item w dir titles i st = Next st' ev"
  shows "ev = Stored i (titles ! nat i) p ss
         \<and> (\<exists>d1 d2. history (conn st') = history (conn st) @ [d1, d2]
              \<and> pending (conn st') = d2 \<and> durable (conn st') = d2
              \<and> cursor d1 = cursor (pending (conn st)) \<and> cursor d2 = i + 1
              \<and> item_stored d1 (titles ! nat i) (mw_page_url w (titles ! nat i)) p ss
              \<and> item_stored d2 (titles ! nat i) (mw_page_url w (titles ! nat i)) p ss
              \<and> (\<forall>t. t \<noteq> titles ! nat i \<longrightarrow>
                    players d1 t = players (pending (conn st)) t
                    \<and> players d2 t = players (pending (conn st)) t)
              \<and> set (team_stints (pending (conn st))) \<subseteq> set (team_stints d1)
              \<and> set (team_stints (pending (conn st))) \<subseteq> set (team_stints d2))"
proof -
  let ?t = "titles ! nat i"
  let ?u = "mw_page_url w ?t"
  let ?now = "utc_now_item w i"
  let ?d0 = "upsert_player (pending (conn st)) ?t ?u p ?now"
  have pi: "py_index titles i = Inr ?t" using idx by (simp add: py_index_def)
  from nx obtain d1 where ins: "insert_stints ?d0 ?t ?now ss = Inr d1"
    and st': "st' = \<lparr>conn = set_checkpoint (commit ((conn st)\<lparr>pending := d1\<rparr>)) done_key (i + 1)
                              (utc_now_checkpoint w i), files = fs\<rparr>"
    and ev: "ev = Stored i ?t p ss"
    using pi ok by (auto simp: process_item_def Let_def split: sum.splits)
  note e = insert_stints_effect [OF ins]
  let ?d2 = "d1\<lparr>checkpoints := (checkpoints d1)(done_key \<mapsto> (i + 1, utc_now_checkpoint w i))\<rparr>"
  have h: "history (conn st') = history (conn st) @ [d1, ?d2]"
    and pd: "pending (conn st') = ?d2" "durable (conn st') = ?d2"
    by (simp_all add: st' set_checkpoint_def commit_def)
  have c1: "cursor d1 = cursor (pending (conn st))"
    using e by (simp add: cursor_def checkpoint_of_def upsert_player_effect)
  have c2: "cursor ?d2 = i + 1" by (simp add: cursor_def checkpoint_of_def)
  have s1: "item_stored d1 ?t ?u p ss"
    using e by (simp add: item_stored_def upsert_player_effect)
  have s2: "item_stored ?d2 ?t ?u p ss"
    using s1 by (simp add: item_stored_def)
  have o1: "\<forall>t. t \<noteq> ?t \<longrightarrow> players d1 t = players (pending (conn st)) t
                          \<and> players ?d2 t = players (pending (conn st)) t"
    using e by (simp add: upsert_player_effect)
  have t1: "set (team_stints (pending (conn st))) \<subseteq> set (team_stints d1)"
    "set (team_stints (pending (conn st))) \<subseteq> set (team_stints ?d2)"
    using e by (simp_all add: upsert_player_effect)
  show ?thesis using ev h pd c1 c2 s1 s2 o1 t1 by blast
qed

text \<open>What one pass of the loop body leaves behind, whatever branch it takes.\<close>

lemma process_item_Next:
  assumes idx: "0 \<le> i" "i < int (length titles)"
    and nx: "process_item w dir titles i st = Next st' ev"
  shows "pending (conn st') = durable (conn st') \<and> cursor (durable (conn st')) = i + 1
         \<and> event_index ev = i
         \<and> (\<exists>new. history (conn st') = history (conn st) @ new
               \<and> durable (conn st') \<in> set new
               \<and> (\<forall>d \<in> set new.
                     (cursor d = cursor (pending (conn st)) \<or> cursor d = i + 1)
                     \<and> (\<forall>t. t \<noteq> titles ! nat i \<longrightarrow> players d t = players (pending (conn st)) t)
                     \<and> set (team_stints (pending (conn st))) \<subseteq> set (team_stints d)
                     \<and> (\<forall>j t p ss. ev = Stored j t p ss \<longrightarrow>
                           t = titles ! nat i
                           \<and> item_stored d t (mw_page_url w t) p ss)))"
proof -
  let ?t = "titles ! nat i"
  have pi: "py_index titles i = Inr ?t" using idx by (simp add: py_index_def)
  obtain r fs where tb: "try_block w (files st) ?t (mw_page_url w ?t) dir = (r, fs)"
    by (cases "try_block w (files st) ?t (mw_page_url w ?t) dir")
  show ?thesis
  proof (cases r)
    case (Inl e)
    let ?c = "set_checkpoint (conn st) done_key (i + 1) (utc_now_checkpoint w i)"
    from nx pi tb Inl have st': "st' = \<lparr>conn = ?c, files = fs\<rparr>" and ev: "ev = Skipped i e"
      by (auto simp: process_item_def Let_def split: if_splits)
    have "history ?c = history (conn st) @ [pending ?c]" "durable ?c = pending ?c"
      "cursor (pending ?c) = i + 1" "players (pending ?c) = players (pending (conn st))"
      "team_stints (pending ?c) = team_stints (pending (conn st))"
      by (simp_all add: set_checkpoint_def commit_def cursor_def checkpoint_of_def)
    then show ?thesis using st' ev by simp
  next
    case (Inr ps)
    obtain p ss where ps: "ps = (p, ss)" by (cases ps)
    from process_item_stored [OF idx tb [unfolded Inr ps] nx]
    obtain d1 d2 where ev: "ev = Stored i ?t p ss"
      and h: "history (conn st') = history (conn st) @ [d1, d2]"
      and pd: "pending (conn st') = d2" "durable (conn st') = d2"
      and c: "cursor d1 = cursor (pending (conn st))" "cursor d2 = i + 1"
      and s: "item_stored d1 ?t (mw_page_url w ?t) p ss" "item_stored d2 ?t (mw_page_url w ?t) p ss"
      and o: "\<forall>t. t \<noteq> ?t \<longrightarrow> players d1 t = players (pending (conn st)) t
                    \<and> players d2 t = players (pending (conn st)) t"
      and ts: "set (team_stints (pending (conn st))) \<subseteq> set (team_stints d1)"
              "set (team_stints (pending (conn st))) \<subseteq> set (team_stints d2)"
      by blast
    have "\<forall>d \<in> set [d1, d2].
            (cursor d = cursor (pending (conn st)) \<or> cursor d = i + 1)
            \<and> (\<forall>t. t \<noteq> ?t \<longrightarrow> players d t = players (pending (conn st)) t)
            \<and> set (team_stints (pending (conn st))) \<subseteq> set (team_stints d)
            \<and> (\<forall>j t p' ss'. ev = Stored j t p' ss' \<longrightarrow>
                  t = ?t \<and> item_stored d t (mw_page_url w t) p' ss')"
      using ev c s o ts by simp
    moreover have "durable (conn st') \<in> set [d1, d2]" using pd by simp
    ultimately show ?thesis using h pd c ev by (intro conjI exI [of _ "[d1, d2]"]) simp_all
  qed
qed

lemma process_item_Halt:
  assumes hl: "process_item w dir titles i st = Halt out st' evs"
  shows "(\<forall>ev \<in> set evs. \<exists>e. ev = Stopped i e)
         \<and> (\<exists>new. history (conn st') = history (conn st) @ new
               \<and> (\<forall>d \<in> set new. players d = players (pending (conn st))
                     \<and> team_stints d = team_stints (pending (conn st))))"
proof (cases "py_index titles i")
  case (Inl e)
  then have "st' = st" "evs = []" using hl by (simp_all add: process_item_def)
  then show ?thesis by simp
next
  case (Inr title)
  obtain r fs where tb: "try_block w (files st) title (mw_page_url w title) dir = (r, fs)"
    by (cases "try_block w (files st) title (mw_page_url w title) dir")
  show ?thesis
  proof (cases r)
    case (Inl e)
    let ?c = "set_checkpoint (conn st) done_key i (utc_now_checkpoint w i)"
    from hl Inr tb Inl have "st' = \<lparr>conn = ?c, files = fs\<rparr>" "evs = [Stopped i e]"
      by (auto simp: process_item_def Let_def split: if_splits)
    moreover have "history ?c = history (conn st) @ [pending ?c]"
      "players (pending ?c) = players (pending (conn st))"
      "team_stints (pending ?c) = team_stints (pending (conn st))"
      by (simp_all add: set_checkpoint_def commit_def)
    ultimately show ?thesis by simp
  next
    case Inr2: (Inr ps)
    obtain p ss where ps: "ps = (p, ss)" by (cases ps)
    from hl Inr tb Inr2 ps have "history (conn st') = history (conn st)" "evs = []"
      by (auto simp: process_item_def Let_def split: sum.splits)
    then show ?thesis by simp
  qed
qed

lemma nth_not_in_later:
  assumes "distinct xs" "n < length xs"
  shows "xs ! n \<in> set (drop n xs) \<and> xs ! n \<notin> set (drop (Suc n) xs)"
proof -
  have "drop n xs = xs ! n # drop (Suc n) xs"
    using assms(2) by (simp add: Cons_nth_drop_Suc)
  moreover have "distinct (drop n xs)" using assms(1) by simp
  ultimately show ?thesis by (metis distinct.simps(2) list.set_intros(1))
qed

lemma loop_invariant:
  "0 \<le> i \<Longrightarrow> distinct titles \<Longrightarrow> pending (conn st) = durable (conn st) \<Longrightarrow>
   cursor (durable (conn st)) \<le> i \<Longrightarrow> players_loop w dir titles i st = (out, st', evs) \<Longrightarrow>
     (\<forall>ev \<in> set evs. i \<le> event_index ev)
     \<and> (\<exists>new. history (conn st') = history (conn st) @ new
          \<and> (\<forall>d \<in> set new.
                (\<forall>t. t \<notin> set (drop (nat i) titles) \<longrightarrow>
                      players d t = players (durable (conn st)) t)
                \<and> set (team_stints (durable (conn st))) \<subseteq> set (team_stints d)
                \<and> (\<forall>j t p ss. Stored j t p ss \<in> set evs \<longrightarrow> j < cursor d \<longrightarrow>
                      item_stored d t (mw_page_url w t) p ss)))"
proof (induction w dir titles i st arbitrary: out st' evs rule: players_loop.induct)
  case (1 w dir titles i st)
  show ?case
  proof (cases "i < int (length titles)")
    case False
    then have "evs = []" "st' = st" using "1.prems"(5) by (simp_all add: loop_done)
    then show ?thesis by simp
  next
    case True
    note lt = True
    show ?thesis
    proof (cases "process_item w dir titles i st")
      case (Halt out1 st1 evs1)
      then have eq: "out = out1" "st' = st1" "evs = evs1"
        using "1.prems"(5) lt by (simp_all add: loop_unfold)
      from process_item_Halt [OF Halt] obtain new where
        stp: "\<forall>ev \<in> set evs1. \<exists>e. ev = Stopped i e"
        and h: "history (conn st1) = history (conn st) @ new"
        and same: "\<forall>d \<in> set new. players d = players (pending (conn st))
                     \<and> team_stints d = team_stints (pending (conn st))"
        by blast
      have a: "\<forall>ev \<in> set evs. i \<le> event_index ev" using stp eq by auto
      have b: "\<forall>d \<in> set new.
                (\<forall>t. t \<notin> set (drop (nat i) titles) \<longrightarrow>
                      players d t = players (durable (conn st)) t)
                \<and> set (team_stints (durable (conn st))) \<subseteq> set (team_stints d)
                \<and> (\<forall>j t p ss. Stored j t p ss \<in> set evs \<longrightarrow> j < cursor d \<longrightarrow>
                      item_stored d t (mw_page_url w t) p ss)"
        using same stp eq "1.prems"(3) by auto
      show ?thesis using a b h eq by blast
    next
      case (Next st1 ev)
      obtain out2 st2 evs2 where rest: "players_loop w dir titles (i + 1) st1 = (out2, st2, evs2)"
        by (cases "players_loop w dir titles (i + 1) st1")
      have eq: "out = out2" "st' = st2" "evs = ev # evs2"
        using "1.prems"(5) lt Next rest by (simp_all add: loop_unfold)
      let ?ti = "titles ! nat i"
      have n: "nat i < length titles" "nat (i + 1) = Suc (nat i)"
        using "1.prems"(1) lt by auto
      note pos = nth_not_in_later [OF "1.prems"(2) n(1)]
      from process_item_Next [OF "1.prems"(1) lt Next] obtain new1 where
        clean1: "pending (conn st1) = durable (conn st1)"
        and cur1: "cursor (durable (conn st1)) = i + 1"
        and evi: "event_index ev = i"
        and h1: "history (conn st1) = history (conn st) @ new1"
        and last1: "durable (conn st1) \<in> set new1"
        and inv1: "\<forall>d \<in> set new1.
                     (cursor d = cursor (pending (conn st)) \<or> cursor d = i + 1)
                     \<and> (\<forall>t. t \<noteq> ?ti \<longrightarrow> players d t = players (pending (conn st)) t)
                     \<and> set (team_stints (pending (conn st))) \<subseteq> set (team_stints d)
                     \<and> (\<forall>j t p ss. ev = Stored j t p ss \<longrightarrow>
                           t = ?ti \<and> item_stored d t (mw_page_url w t) p ss)"
        by blast
      have ih: "(\<forall>ev \<in> set evs2. i + 1 \<le> event_index ev)
         \<and> (\<exists>new. history (conn st2) = history (conn st1) @ new
              \<and> (\<forall>d \<in> set new.
                    (\<forall>t. t \<notin> set (drop (nat (i + 1)) titles) \<longrightarrow>
                          players d t = players (durable (conn st1)) t)
                    \<and> set (team_stints (durable (conn st1))) \<subseteq> set (team_stints d)
                    \<and> (\<forall>j t p ss. Stored j t p ss \<in> set evs2 \<longrightarrow> j < cursor d \<longrightarrow>
                          item_stored d t (mw_page_url w t) p ss)))"
        using "1.IH" [OF lt Next _ "1.prems"(2) clean1 _ rest] "1.prems"(1) cur1 by simp
      then obtain new2 where
        ge2: "\<forall>ev \<in> set evs2. i + 1 \<le> event_index ev"
        and h2: "history (conn st2) = history (conn st1) @ new2"
        and inv2: "\<forall>d \<in> set new2.
                    (\<forall>t. t \<notin> set (drop (nat (i + 1)) titles) \<longrightarrow>
                          players d t = players (durable (conn st1)) t)
                    \<and> set (team_stints (durable (conn st1))) \<subseteq> set (team_stints d)
                    \<and> (\<forall>j t p ss. Stored j t p ss \<in> set evs2 \<longrightarrow> j < cursor d \<longrightarrow>
                          item_stored d t (mw_page_url w t) p ss)"
        by blast
      have a: "\<forall>e \<in> set evs. i \<le> event_index e"
        using ge2 evi eq by auto
      have hist: "history (conn st') = history (conn st) @ (new1 @ new2)"
        using h1 h2 eq by simp
      have pd: "pending (conn st) = durable (conn st)" by (rule "1.prems"(3))
      have b1: "\<forall>d \<in> set new1.
                (\<forall>t. t \<notin> set (drop (nat i) titles) \<longrightarrow>
                      players d t = players (durable (conn st)) t)
                \<and> set (team_stints (durable (conn st))) \<subseteq> set (team_stints d)
                \<and> (\<forall>j t p ss. Stored j t p ss \<in> set evs \<longrightarrow> j < cursor d \<longrightarrow>
                      item_stored d t (mw_page_url w t) p ss)"
      proof
        fix d assume d: "d \<in> set new1"
        from inv1 d have c: "cursor d = cursor (pending (conn st)) \<or> cursor d = i + 1"
          and o: "\<forall>t. t \<noteq> ?ti \<longrightarrow> players d t = players (pending (conn st)) t"
          and ts: "set (team_stints (pending (conn st))) \<subseteq> set (team_stints d)"
          and sv: "\<forall>j t p ss. ev = Stored j t p ss \<longrightarrow>
                           t = ?ti \<and> item_stored d t (mw_page_url w t) p ss"
          by blast+
        have cle: "cursor d \<le> i + 1" using c "1.prems"(4) pd by auto
        have x: "\<forall>t. t \<notin> set (drop (nat i) titles) \<longrightarrow>
                      players d t = players (durable (conn st)) t"
          using o pos pd by metis
        have z: "\<forall>j t p ss. Stored j t p ss \<in> set evs \<longrightarrow> j < cursor d \<longrightarrow>
                      item_stored d t (mw_page_url w t) p ss"
        proof (intro allI impI)
          fix j t p ss assume m: "Stored j t p ss \<in> set evs" and jl: "j < cursor d"
          show "item_stored d t (mw_page_url w t) p ss"
          proof (cases "Stored j t p ss = ev")
            case True
            then show ?thesis using sv by auto
          next
            case False
            then have "Stored j t p ss \<in> set evs2" using m eq by simp
            then have "i + 1 \<le> j" using ge2 by fastforce
            then show ?thesis using jl cle by simp
          qed
        qed
        show "(\<forall>t. t \<notin> set (drop (nat i) titles) \<longrightarrow>
                      players d t = players (durable (conn st)) t)
                \<and> set (team_stints (durable (conn st))) \<subseteq> set (team_stints d)
                \<and> (\<forall>j t p ss. Stored j t p ss \<in> set evs \<longrightarrow> j < cursor d \<longrightarrow>
                      item_stored d t (mw_page_url w t) p ss)"
          using x ts z pd by simp
      qed
      have b2: "\<forall>d \<in> set new2.
                (\<forall>t. t \<notin> set (drop (nat i) titles) \<longrightarrow>
                      players d t = players (durable (conn st)) t)
                \<and> set (team_stints (durable (conn st))) \<subseteq> set (team_stints d)
                \<and> (\<forall>j t p ss. Stored j t p ss \<in> set evs \<longrightarrow> j < cursor d \<longrightarrow>
                      item_stored d t (mw_page_url w t) p ss)"
      proof
        fix d assume d: "d \<in> set new2"
        from inv2 d have o2: "\<forall>t. t \<notin> set (drop (Suc (nat i)) titles) \<longrightarrow>
                          players d t = players (durable (conn st1)) t"
          and ts2: "set (team_stints (durable (conn st1))) \<subseteq> set (team_stints d)"
          and sv2: "\<forall>j t p ss. Stored j t p ss \<in> set evs2 \<longrightarrow> j < cursor d \<longrightarrow>
                          item_stored d t (mw_page_url w t) p ss"
          unfolding n(2) by blast+
        from inv1 last1 have o1: "\<forall>t. t \<noteq> ?ti \<longrightarrow>
                 players (durable (conn st1)) t = players (pending (conn st)) t"
          and ts1: "set (team_stints (pending (conn st))) \<subseteq> set (team_stints (durable (conn st1)))"
          and sv1: "\<forall>j t p ss. ev = Stored j t p ss \<longrightarrow>
                     t = ?ti \<and> item_stored (durable (conn st1)) t (mw_page_url w t) p ss"
          by blast+
        have sub: "set (drop (Suc (nat i)) titles) \<subseteq> set (drop (nat i) titles)"
          by (rule set_drop_subset_set_drop) simp
        have x: "\<forall>t. t \<notin> set (drop (nat i) titles) \<longrightarrow>
                      players d t = players (durable (conn st)) t"
          using o2 o1 sub pos pd by (metis subsetD)
        have y: "set (team_stints (durable (conn st))) \<subseteq> set (team_stints d)"
          using ts1 ts2 pd by auto
        have z: "\<forall>j t p ss. Stored j t p ss \<in> set evs \<longrightarrow> j < cursor d \<longrightarrow>
                      item_stored d t (mw_page_url w t) p ss"
        proof (intro allI impI)
          fix j t p ss assume m: "Stored j t p ss \<in> set evs" and jl: "j < cursor d"
          show "item_stored d t (mw_page_url w t) p ss"
          proof (cases "Stored j t p ss = ev")
            case True
            then have t: "t = ?ti"
              and s1: "item_stored (durable (conn st1)) t (mw_page_url w t) p ss"
              using sv1 by auto
            have "players d t = players (durable (conn st1)) t"
              using o2 pos t by simp
            then show ?thesis using item_stored_persists [OF s1 _ ts2] by simp
          next
            case False
            then have "Stored j t p ss \<in> set evs2" using m eq by simp
            then show ?thesis using sv2 jl by blast
          qed
        qed
        show "(\<forall>t. t \<notin> set (drop (nat i) titles) \<longrightarrow>
                      players d t = players (durable (conn st)) t)
                \<and> set (team_stints (durable (conn st))) \<subseteq> set (team_stints d)
                \<and> (\<forall>j t p ss. Stored j t p ss \<in> set evs \<longrightarrow> j < cursor d \<longrightarrow>
                      item_stored d t (mw_page_url w t) p ss)"
          using x y z by simp
      qed
      have b: "\<forall>d \<in> set (new1 @ new2).
                (\<forall>t. t \<notin> set (drop (nat i) titles) \<longrightarrow>
                      players d t = players (durable (conn st)) t)
                \<and> set (team_stints (durable (conn st))) \<subseteq> set (team_stints d)
                \<and> (\<forall>j t p ss. Stored j t p ss \<in> set evs \<longrightarrow> j < cursor d \<longrightarrow>
                      item_stored d t (mw_page_url w t) p ss)"
        using b1 b2 by auto
      show ?thesis using a hist b by blast
    qed
  qed
qed

lemma last_append_last: "last (x # xs @ ys) = last (last (x # xs) # ys)"
  by (cases ys) simp_all

lemma set_checkpoint_last:
  "history (set_checkpoint c k v now) = history c @ [pending (set_checkpoint c k v now)]
   \<and> durable (set_checkpoint c k v now) = pending (set_checkpoint c k v now)"
  by (simp add: set_checkpoint_def commit_def)

lemma process_item_durable:
  assumes "process_item w dir titles i st = Next st' ev
           \<or> process_item w dir titles i st = Halt out st' evs"
  shows "\<exists>new. history (conn st') = history (conn st) @ new
              \<and> durable (conn st') = last (durable (conn st) # new)"
proof (cases "py_index titles i")
  case (Inl e)
  then have "st' = st" using assms by (simp add: process_item_def)
  then show ?thesis by simp
next
  case (Inr title)
  obtain r fs where tb: "try_block w (files st) title (mw_page_url w title) dir = (r, fs)"
    by (cases "try_block w (files st) title (mw_page_url w title) dir")
  show ?thesis
  proof (cases r)
    case (Inl e)
    then obtain v where "st' = \<lparr>conn = set_checkpoint (conn st) done_key v (utc_now_checkpoint w i),
                                 files = fs\<rparr>"
      using assms Inr tb by (auto simp: process_item_def Let_def split: if_splits)
    then show ?thesis using set_checkpoint_last [of "conn st" done_key v] by simp
  next
    case Inr2: (Inr ps)
    obtain p ss where ps: "ps = (p, ss)" by (cases ps)
    let ?d1 = "upsert_player (pending (conn st)) title (mw_page_url w title) p (utc_now_item w i)"
    show ?thesis
    proof (cases "insert_stints ?d1 title (utc_now_item w i) ss")
      case (Inl e)
      then have "st' = \<lparr>conn = (conn st)\<lparr>pending := ?d1\<rparr>, files = fs\<rparr>"
        using assms Inr tb Inr2 ps by (simp add: process_item_def Let_def)
      then show ?thesis by simp
    next
      case (Inr d2)
      let ?c = "commit ((conn st)\<lparr>pending := d2\<rparr>)"
      have "st' = \<lparr>conn = set_checkpoint ?c done_key (i + 1) (utc_now_checkpoint w i),
                    files = fs\<rparr>"
        using assms \<open>py_index titles i = Inr title\<close> tb Inr2 ps Inr
        by (simp add: process_item_def Let_def)
      moreover have "history ?c = history (conn st) @ [d2]" by (simp add: commit_def)
      ultimately show ?thesis
        using set_checkpoint_last [of ?c done_key "i + 1"] by simp
    qed
  qed
qed

lemma loop_durable:
  "players_loop w dir titles i st = (out, st', evs) \<Longrightarrow>
     \<exists>new. history (conn st') = history (conn st) @ new
           \<and> durable (conn st') = last (durable (conn st) # new)"
proof (induction w dir titles i st arbitrary: out st' evs rule: players_loop.induct)
  case (1 w dir titles i st)
  show ?case
  proof (cases "i < int (length titles)")
    case False
    then have "st' = st" using "1.prems" by (simp add: loop_done)
    then show ?thesis by simp
  next
    case True
    show ?thesis
    proof (cases "process_item w dir titles i st")
      case (Halt out1 st1 evs1)
      then have "st' = st1" using "1.prems" True by (simp add: loop_unfold)
      then show ?thesis using process_item_durable [of w dir titles i st st' _ out1 evs1] Halt
        by simp
    next
      case (Next st1 ev)
      obtain out2 st2 evs2 where rest: "players_loop w dir titles (i + 1) st1 = (out2, st2, evs2)"
        by (cases "players_loop w dir titles (i + 1) st1")
      have eq: "st' = st2" using "1.prems" True Next rest by (simp add: loop_unfold)
      from process_item_durable [of w dir titles i st st1 ev] Next obtain new1 where
        h1: "history (conn st1) = history (conn st) @ new1"
        and d1: "durable (conn st1) = last (durable (conn st) # new1)" by auto
      from "1.IH" [OF True Next rest] obtain new2 where
        h2: "history (conn st2) = history (conn st1) @ new2"
        and d2: "durable (conn st2) = last (durable (conn st1) # new2)" by auto
      have "history (conn st') = history (conn st) @ (new1 @ new2)"
        using h1 h2 eq by simp
      moreover have "durable (conn st') = last (durable (conn st) # new1 @ new2)"
        using d1 d2 eq last_append_last [of "durable (conn st)" new1 new2] by simp
      ultimately show ?thesis by blast
    qed
  qed
qed

text \<open>
  C5. A run of the stage on a connection without open writes, resuming at a
  non-negative index: in every database that the run makes durable, and so in whatever
  an unclean stop leaves behind, each item that the run stored and that lies before the
  checkpoint of that database has its \<open>players\<close> row and its \<open>team_stints\<close> rows in
  that database.
\<close>

theorem checkpoint_never_passes_uncommitted_item:
  assumes clean: "pending (conn st) = durable (conn st)"
    and nonneg: "0 \<le> cursor (durable (conn st))"
    and r: "run w cfg st = (out, st', evs)"
  shows "\<exists>new. history (conn st') = history (conn st) @ new
           \<and> durable (conn st') = last (durable (conn st) # new)
           \<and> (\<forall>d \<in> set new. \<forall>j t p ss.
                 Stored j t p ss \<in> set evs \<longrightarrow> j < cursor d \<longrightarrow>
                   item_stored d t (mw_page_url w t) p ss)"
proof (cases "fetch_index_html w (files st) (cfg_index_page cfg) (cfg_cache_dir cfg)")
  case (Pair res fs)
  show ?thesis
  proof (cases res)
    case (Inl e)
    then have "st' = st\<lparr>files := fs\<rparr>" "evs = []"
      using r Pair by (simp_all add: run_def)
    then show ?thesis by simp
  next
    case (Inr html)
    let ?titles = "truncate_titles (cfg_max_players cfg)
                     (discover_player_titles_from_html (find_all_a_href w) html)"
    let ?st0 = "st\<lparr>files := fs\<rparr>"
    have lp: "players_loop w (cfg_cache_dir cfg) ?titles (cursor (durable (conn ?st0))) ?st0
                = (out, st', evs)"
      using r Pair Inr clean by (simp add: run_def)
    have dist: "distinct ?titles"
      by (simp add: truncate_titles_def discover_distinct)
    have c0: "pending (conn ?st0) = durable (conn ?st0)" using clean by simp
    have n0: "0 \<le> cursor (durable (conn ?st0))" using nonneg by simp
    from loop_invariant [OF n0 dist c0 order_refl lp] obtain new where
      h: "history (conn st') = history (conn ?st0) @ new"
      and inv: "\<forall>d \<in> set new. \<forall>j t p ss.
                 Stored j t p ss \<in> set evs \<longrightarrow> j < cursor d \<longrightarrow>
                   item_stored d t (mw_page_url w t) p ss"
      by blast
    from loop_durable [OF lp] obtain new' where
      h': "history (conn st') = history (conn ?st0) @ new'"
      and d': "durable (conn st') = last (durable (conn ?st0) # new')"
      by blast
    have "new' = new" using h h' by simp
    then show ?thesis using h inv d' by auto
  qed
qed

theorem checkpoint_order_witness:
  "pending (conn fresh_state) = durable (conn fresh_state)
   \<and> 0 \<le> cursor (durable (conn fresh_state))
   \<and> fst (run base_world cfg_default fresh_state) = Done
   \<and> map cursor (history (conn (fst (snd (run base_world cfg_default fresh_state)))))
       = [0, 1, 1, 2, 2, 3]
   \<and> list_all
        (\<lambda>d. cursor d \<le> 1
             \<or> item_stored d ''B'' (mw_page_url base_world ''B'')
                  \<lparr>display_name = Some ''<p>B'', country = None, role = None\<rparr> faker_stints)
        (history (conn (fst (snd (run base_world cfg_default fresh_state)))))"
proof -
  define R where "R = run base_world cfg_default fresh_state"
  have h1: "pending (conn fresh_state) = durable (conn fresh_state)"
    by (simp add: fresh_state_def)
  have h2: "0 \<le> cursor (durable (conn fresh_state))"
    by (simp add: fresh_state_def init_db_def cursor_def checkpoint_of_def)
  have h3: "run base_world cfg_default fresh_state = (fst R, fst (snd R), snd (snd R))"
    by (simp add: R_def)
  have o: "fst R = Done" unfolding R_def by code_simp
  have cs: "map cursor (history (conn (fst (snd R)))) = [0, 1, 1, 2, 2, 3]"
    unfolding R_def by code_simp
  have ev: "Stored 1 ''B'' \<lparr>display_name = Some ''<p>B'', country = None, role = None\<rparr>
              faker_stints \<in> set (snd (snd R))"
    unfolding R_def by code_simp
  have h0: "history (conn fresh_state) = []" by (simp add: fresh_state_def)
  from checkpoint_never_passes_uncommitted_item [OF h1 h2 h3] obtain new where
    n: "history (conn (fst (snd R))) = history (conn fresh_state) @ new"
    and inv: "\<forall>d \<in> set new. \<forall>j t p ss.
                 Stored j t p ss \<in> set (snd (snd R)) \<longrightarrow> j < cursor d \<longrightarrow>
                   item_stored d t (mw_page_url base_world t) p ss"
    by blast
  have "\<forall>d \<in> set (history (conn (fst (snd R)))).
          cursor d \<le> 1 \<or> item_stored d ''B'' (mw_page_url base_world ''B'')
                  \<lparr>display_name = Some ''<p>B'', country = None, role = None\<rparr> faker_stints"
  proof
    fix d assume "d \<in> set (history (conn (fst (snd R))))"
    then have "d \<in> set new" using n h0 by simp
    then show "cursor d \<le> 1 \<or> item_stored d ''B'' (mw_page_url base_world ''B'')
                  \<lparr>display_name = Some ''<p>B'', country = None, role = None\<rparr> faker_stints"
      using inv ev by (cases "1 < cursor d") auto
  qed
  then have la: "list_all
        (\<lambda>d. cursor d \<le> 1
             \<or> item_stored d ''B'' (mw_page_url base_world ''B'')
                  \<lparr>display_name = Some ''<p>B'', country = None, role = None\<rparr> faker_stints)
        (history (conn (fst (snd R))))"
    unfolding list_all_iff .
  show ?thesis
    using h1 h2 o cs la unfolding R_def by (intro conjI)
qed

subsection \<open>Insertion of team stints\<close>

lemma unique_conflict_present:
  assumes "team r \<noteq> None" "joined r \<noteq> None" "left r \<noteq> None" "note r \<noteq> None"
  shows "unique_conflict r r"
  using assms by (auto simp: unique_conflict_def)

text \<open>A row without a \<^verbatim>\<open>NULL\<close> in the five columns is stored once.\<close>

lemma insert_twice_without_null:
  assumes "team r \<noteq> None" "joined r \<noteq> None" "left r \<noteq> None" "note r \<noteq> None"
    and "insert_or_ignore_stint d r = Inr d'"
  shows "insert_or_ignore_stint d' r = Inr d'"
proof -
  have "players d (player_title r) \<noteq> None"
    using assms(5) by (auto simp: insert_or_ignore_stint_def split: if_splits)
  moreover have "list_ex (\<lambda>s. unique_conflict s r) (team_stints d')"
    using assms(5) unique_conflict_present [OF assms(1-4)]
    by (auto simp: insert_or_ignore_stint_def list_ex_iff split: if_splits)
  moreover have "players d' = players d"
    using assms(5) by (auto simp: insert_or_ignore_stint_def split: if_splits)
  ultimately show ?thesis by (simp add: insert_or_ignore_stint_def)
qed

text \<open>
  C4. The ongoing stint of the example (team \<open>T1\<close>, joined 2014-12-02, \<open>left\<close> and
  \<open>note\<close> both \<^verbatim>\<open>NULL\<close>), inserted twice for a stored player, is stored twice: the
  \<^verbatim>\<open>UNIQUE\<close> constraint does not see two rows with a \<^verbatim>\<open>NULL\<close> as equal. The same holds
  for the closed stint, whose \<open>note\<close> is \<^verbatim>\<open>NULL\<close>, so storing the stints of a page a
  second time doubles the rows.
\<close>

theorem stint_with_null_inserted_twice_is_stored_twice:
  "stint_count (insert_or_ignore_stint db_A
      (stint_row_of ''A'' ''2024-05-01 10:00:00'' (faker_stints ! 1))) = Some 1
   \<and> stint_count (insert_stint_twice db_A
      (stint_row_of ''A'' ''2024-05-01 10:00:00'' (faker_stints ! 1))) = Some 2
   \<and> stint_count (insert_stints db_A_stints ''A'' ''2024-06-01 10:00:00'' faker_stints) = Some 4"
  by (simp add: stint_count_def insert_stint_twice_def insert_or_ignore_stint_def
      db_A_stints_def db_A_def upsert_player_def init_db_def stint_row_of_def faker_stints_def
      unique_conflict_def)

subsection \<open>The cache\<close>

lemma read_text_Cons: "c \<noteq> CR \<Longrightarrow> read_text (c # cs) = c # read_text cs"
  by (cases cs) simp_all

lemma read_text_no_CR: "CR \<notin> set s \<Longrightarrow> read_text s = s"
proof (induction s)
  case Nil
  show ?case by simp
next
  case (Cons c s)
  then have "c \<noteq> CR" "read_text s = s" by auto
  then show ?case by (simp add: read_text_Cons)
qed

lemma write_text_LF: "write_text [LF] s = s"
  by (induction s) (simp_all add: write_text_def)

lemma read_write_CRLF: "CR \<notin> set s \<Longrightarrow> read_text (write_text [CR, LF] s) = s"
proof (induction s)
  case Nil
  then show ?case by (simp add: write_text_def)
next
  case (Cons c s)
  then have ih: "read_text (write_text [CR, LF] s) = s" and c: "c \<noteq> CR" by auto
  show ?case
  proof (cases "c = LF")
    case True
    then show ?thesis using ih by (simp add: write_text_def)
  next
    case False
    have "write_text [CR, LF] (c # s) = c # write_text [CR, LF] s"
      using False by (simp add: write_text_def)
    then show ?thesis using c ih by (simp add: read_text_Cons)
  qed
qed

text \<open>
  A payload without a carriage return comes back as it was stored, on a platform whose
  line separator is \<open>LF\<close> or \<open>CR LF\<close>; nothing in the cache depends on time.
\<close>

lemma cache_roundtrip_without_CR:
  assumes "CR \<notin> set v" "linesep w = [LF] \<or> linesep w = [CR, LF]"
  shows "cache_get w (cache_set w fs dir key v) dir key = Some v"
  using assms
  by (auto simp: cache_get_def cache_set_def write_text_LF read_text_no_CR read_write_CRLF)

text \<open>
  C8. A payload with a Windows line end, stored and read back under the same key, comes
  back with a bare line feed: \<^verbatim>\<open>cache_get\<close> does not return what \<^verbatim>\<open>cache_set\<close> was
  given.
\<close>

theorem cache_get_normalises_carriage_returns:
  "cache_get base_world
     (cache_set base_world Map.empty ''.cache_html'' ''PLAYER::A'' [CHR ''a'', CR, LF, CHR ''b''])
     ''.cache_html'' ''PLAYER::A'' = Some [CHR ''a'', LF, CHR ''b'']
   \<and> cache_get base_world
     (cache_set base_world Map.empty ''.cache_html'' ''PLAYER::A'' [CHR ''a'', CR, LF, CHR ''b''])
     ''.cache_html'' ''PLAYER::A'' \<noteq> Some [CHR ''a'', CR, LF, CHR ''b'']"
  by (simp add: cache_get_def cache_set_def base_world_def write_text_def CR_def LF_def)

subsection \<open>Career aggregation\<close>

lemma fold_min_least: "fold min xs (x::string) \<in> set (x # xs) \<and> (\<forall>y \<in> set (x # xs). fold min xs x \<le> y)"
proof -
  have "fold min xs x = Min (set (x # xs))" by (rule Min.set_eq_fold [symmetric])
  then show ?thesis by (metis List.finite_set Min_in Min_le list.discI set_empty)
qed

lemma fold_max_greatest: "fold max xs (x::string) \<in> set (x # xs) \<and> (\<forall>y \<in> set (x # xs). y \<le> fold max xs x)"
proof -
  have "fold max xs x = Max (set (x # xs))" by (rule Max.set_eq_fold [symmetric])
  then show ?thesis by (metis List.finite_set Max_in Max_ge list.discI set_empty)
qed

lemma sql_min_least:
  "xs \<noteq> [] \<Longrightarrow> \<exists>m. sql_min xs = Some m \<and> m \<in> set xs \<and> (\<forall>y \<in> set xs. m \<le> y)"
  using fold_min_least by (cases xs) auto

lemma sql_max_greatest:
  "xs \<noteq> [] \<Longrightarrow> \<exists>m. sql_max xs = Some m \<and> m \<in> set xs \<and> (\<forall>y \<in> set xs. y \<le> m)"
  using fold_max_greatest by (cases xs) auto

lemma career_group_joined:
  "r \<in> set (career_group d t) \<Longrightarrow> player_title r = t \<and> joined r \<noteq> None"
  by (simp add: career_group_def)

lemma map_filter_joined_set:
  "set (List.map_filter joined g) = {j. \<exists>r \<in> set g. joined r = Some j}"
  by (force simp: List.map_filter_def image_iff)

lemma career_of_row:
  assumes ne: "g \<noteq> []" and dated: "\<forall>r \<in> set g. joined r \<noteq> None"
  shows "\<exists>s e. career_start (career_of w today now g) = Some s
           \<and> (\<exists>r \<in> set g. joined r = Some s)
           \<and> (\<forall>r \<in> set g. \<forall>j. joined r = Some j \<longrightarrow> s \<le> j)
           \<and> career_end (career_of w today now g) = Some e
           \<and> (\<exists>r \<in> set g. coalesce (left r) today = e)
           \<and> (\<forall>r \<in> set g. coalesce (left r) today \<le> e)
           \<and> career_days (career_of w today now g) =
                (case (julianday w e, julianday w s) of
                   (Some a, Some b) \<Rightarrow> Some (sql_round1 (a - b))
                 | _ \<Rightarrow> None)
           \<and> stints_count (career_of w today now g) = int (length g)
           \<and> career_row.updated_utc (career_of w today now g) = now"
proof -
  obtain r0 where r0: "r0 \<in> set g" using ne by (cases g) auto
  then obtain j0 where "joined r0 = Some j0" using dated by auto
  then have "List.map_filter joined g \<noteq> []"
    using r0 map_filter_joined_set [of g] by (metis (mono_tags, lifting) empty_iff empty_set mem_Collect_eq)
  from sql_min_least [OF this] obtain s where
    s: "sql_min (List.map_filter joined g) = Some s"
    and s_in: "s \<in> set (List.map_filter joined g)"
    and s_le: "\<forall>y \<in> set (List.map_filter joined g). s \<le> y" by blast
  have "map (\<lambda>r. coalesce (left r) today) g \<noteq> []" using ne by simp
  from sql_max_greatest [OF this] obtain e where
    e: "sql_max (map (\<lambda>r. coalesce (left r) today) g) = Some e"
    and e_in: "e \<in> set (map (\<lambda>r. coalesce (left r) today) g)"
    and e_ge: "\<forall>y \<in> set (map (\<lambda>r. coalesce (left r) today) g). y \<le> e" by blast
  have a: "\<exists>r \<in> set g. joined r = Some s"
    using s_in unfolding map_filter_joined_set by simp
  have b: "\<forall>r \<in> set g. \<forall>j. joined r = Some j \<longrightarrow> s \<le> j"
    using s_le unfolding map_filter_joined_set by blast
  have c: "\<exists>r \<in> set g. coalesce (left r) today = e" using e_in by auto
  have d: "\<forall>r \<in> set g. coalesce (left r) today \<le> e" using e_ge by simp
  have f: "career_start (career_of w today now g) = Some s"
    "career_end (career_of w today now g) = Some e"
    "career_days (career_of w today now g) =
                (case (julianday w e, julianday w s) of
                   (Some a, Some b) \<Rightarrow> Some (sql_round1 (a - b))
                 | _ \<Rightarrow> None)"
    "stints_count (career_of w today now g) = int (length g)"
    "career_row.updated_utc (career_of w today now g) = now"
    using s e by (simp_all add: career_of_def Let_def split: option.splits)
  show ?thesis using a b c d f by blast
qed

lemma career_group_careers_update:
  "career_group (d\<lparr>player_careers := pc\<rparr>) t = career_group d t"
  by (simp add: career_group_def)

lemma careers_run_ok:
  assumes fk: "\<forall>r \<in> set (team_stints (pending c)). players (pending c) (player_title r) \<noteq> None"
  shows "\<exists>c'. careers_run w today now c = Inr c' \<and> durable c' = pending c'
           \<and> team_stints (durable c') = team_stints (pending c)
           \<and> players (durable c') = players (pending c)
           \<and> player_careers (durable c') =
                (\<lambda>t. if career_group (pending c) t = [] then None
                     else Some (career_of w today now (career_group (pending c) t)))"
proof -
  have "\<not> list_ex (\<lambda>r. joined r \<noteq> None \<and> players (pending c) (player_title r) = None)
           (team_stints (pending c))"
    using fk by (auto simp: list_ex_iff)
  then have "careers_run w today now c =
      Inr (commit (c\<lparr>pending := (pending c)\<lparr>player_careers :=
                (\<lambda>title. if career_group (pending c) title = [] then None
                          else Some (career_of w today now (career_group (pending c) title)))\<rparr>\<rparr>))"
    unfolding careers_run_def Let_def career_group_careers_update by simp
  then show ?thesis by (simp add: commit_def)
qed

text \<open>
  C7, as the code has it. On a database whose stints all belong to stored players, for
  a player with at least one stint whose \<open>joined\<close> is not \<^verbatim>\<open>NULL\<close>, the stage leaves
  exactly one committed career row, computed from the player's stints with a \<open>joined\<close>
  date and from no other: \<open>career_start\<close> is the earliest \<open>joined\<close> of these,
  \<open>career_end\<close> the latest \<open>left\<close> of these with \<^verbatim>\<open>NULL\<close> read as today, \<open>career_days\<close>
  the rounded difference of their Julian day numbers, \<open>stints_count\<close> their number;
  players without such a stint have no row. For the two stints of the example, and a
  today that is not before 2014-12-02, this is 2013-02-06, today and 2.
\<close>

theorem career_row_from_dated_stints:
  assumes fk: "\<forall>r \<in> set (team_stints (pending c)). players (pending c) (player_title r) \<noteq> None"
    and dated: "career_group (pending c) t \<noteq> []"
  shows "\<exists>c' row s e.
           careers_run w today now c = Inr c' \<and> durable c' = pending c'
           \<and> team_stints (durable c') = team_stints (pending c)
           \<and> (\<forall>t'. career_group (pending c) t' = [] \<longrightarrow> player_careers (durable c') t' = None)
           \<and> player_careers (durable c') t = Some row
           \<and> career_start row = Some s
           \<and> (\<exists>r \<in> set (career_group (pending c) t). joined r = Some s)
           \<and> (\<forall>r \<in> set (career_group (pending c) t). \<forall>j. joined r = Some j \<longrightarrow> s \<le> j)
           \<and> career_end row = Some e
           \<and> (\<exists>r \<in> set (career_group (pending c) t). coalesce (left r) today = e)
           \<and> (\<forall>r \<in> set (career_group (pending c) t). coalesce (left r) today \<le> e)
           \<and> career_days row =
                (case (julianday w e, julianday w s) of
                   (Some a, Some b) \<Rightarrow> Some (sql_round1 (a - b))
                 | _ \<Rightarrow> None)
           \<and> stints_count row = int (length (career_group (pending c) t))
           \<and> (\<forall>r1 r2. career_group (pending c) t = [r1, r2]
                  \<and> joined r1 = Some ''2013-02-06'' \<and> left r1 = Some ''2014-12-02''
                  \<and> joined r2 = Some ''2014-12-02'' \<and> left r2 = None
                  \<and> ''2014-12-02'' \<le> today \<longrightarrow>
                  s = ''2013-02-06'' \<and> e = today \<and> stints_count row = 2)"
proof -
  let ?g = "career_group (pending c) t"
  from careers_run_ok [OF fk, of w today now] obtain c' where
    run: "careers_run w today now c = Inr c'" and dur: "durable c' = pending c'"
    and ts: "team_stints (durable c') = team_stints (pending c)"
    and pc: "player_careers (durable c') =
                (\<lambda>t. if career_group (pending c) t = [] then None
                     else Some (career_of w today now (career_group (pending c) t)))"
    by blast
  have all: "\<forall>r \<in> set ?g. joined r \<noteq> None" using career_group_joined by blast
  from career_of_row [OF dated all, of w today now] obtain s e where
    cs: "career_start (career_of w today now ?g) = Some s"
    and s_in: "\<exists>r \<in> set ?g. joined r = Some s"
    and s_le: "\<forall>r \<in> set ?g. \<forall>j. joined r = Some j \<longrightarrow> s \<le> j"
    and ce: "career_end (career_of w today now ?g) = Some e"
    and e_in: "\<exists>r \<in> set ?g. coalesce (left r) today = e"
    and e_ge: "\<forall>r \<in> set ?g. coalesce (left r) today \<le> e"
    and cd: "career_days (career_of w today now ?g) =
                (case (julianday w e, julianday w s) of
                   (Some a, Some b) \<Rightarrow> Some (sql_round1 (a - b))
                 | _ \<Rightarrow> None)"
    and sc: "stints_count (career_of w today now ?g) = int (length ?g)"
    by blast
  have row: "player_careers (durable c') t = Some (career_of w today now ?g)"
    using pc dated by simp
  have none: "\<forall>t'. career_group (pending c) t' = [] \<longrightarrow> player_careers (durable c') t' = None"
    using pc by simp
  have ex: "\<forall>r1 r2. ?g = [r1, r2]
                  \<and> joined r1 = Some ''2013-02-06'' \<and> left r1 = Some ''2014-12-02''
                  \<and> joined r2 = Some ''2014-12-02'' \<and> left r2 = None
                  \<and> ''2014-12-02'' \<le> today \<longrightarrow>
                  s = ''2013-02-06'' \<and> e = today
                  \<and> stints_count (career_of w today now ?g) = 2"
  proof (intro allI impI)
    fix r1 r2
    assume h: "?g = [r1, r2]
                  \<and> joined r1 = Some ''2013-02-06'' \<and> left r1 = Some ''2014-12-02''
                  \<and> joined r2 = Some ''2014-12-02'' \<and> left r2 = None
                  \<and> ''2014-12-02'' \<le> today"
    then have g: "?g = [r1, r2]" by simp
    have lt: "''2013-02-06'' \<le> ''2014-12-02''" by simp
    have "s = ''2013-02-06''"
    proof -
      from s_in g h have "s = ''2013-02-06'' \<or> s = ''2014-12-02''" by auto
      moreover have "s \<le> ''2013-02-06''" using s_le g h by auto
      ultimately show ?thesis by auto
    qed
    moreover have "e = today"
    proof -
      have "coalesce (left r2) today \<le> e" using e_ge g by simp
      then have "today \<le> e" using h by (simp add: coalesce_def)
      moreover from e_in g h have "e = ''2014-12-02'' \<or> e = today"
        by (auto simp: coalesce_def)
      ultimately show ?thesis using h by auto
    qed
    moreover have "stints_count (career_of w today now ?g) = 2" using sc g by simp
    ultimately show "s = ''2013-02-06'' \<and> e = today
                  \<and> stints_count (career_of w today now ?g) = 2" by simp
  qed
  show ?thesis
    using run dur ts none row cs s_in s_le ce e_in e_ge cd sc ex by blast
qed

theorem career_row_witness:
  "list_all (\<lambda>r. players db_A_stints (player_title r) \<noteq> None) (team_stints db_A_stints)
   \<and> career_group db_A_stints ''A'' \<noteq> []
   \<and> ''2014-12-02'' \<le> ''2024-05-01''
   \<and> (\<exists>c' row.
         careers_run careers_world ''2024-05-01'' ''2024-05-01 12:00:00'' (connection_on db_A_stints)
           = Inr c'
         \<and> player_careers (durable c') ''A'' = Some row
         \<and> career_start row = Some ''2013-02-06''
         \<and> career_end row = Some ''2024-05-01''
         \<and> career_days row = Some 4102
         \<and> stints_count row = 2)"
proof -
  let ?c = "connection_on db_A_stints"
  have p: "pending ?c = db_A_stints" by (simp add: connection_on_def)
  have fk': "list_all (\<lambda>r. players db_A_stints (player_title r) \<noteq> None) (team_stints db_A_stints)"
    by (simp add: db_A_stints_def db_A_def upsert_player_def init_db_def stint_row_of_def
        faker_stints_def)
  then have fk: "\<forall>r \<in> set (team_stints (pending ?c)). players (pending ?c) (player_title r) \<noteq> None"
    unfolding p list_all_iff .
  have g: "career_group db_A_stints ''A'' =
             map (stint_row_of ''A'' ''2024-05-01 10:00:00'') faker_stints"
    by (simp add: career_group_def db_A_stints_def db_A_def upsert_player_def init_db_def
        stint_row_of_def faker_stints_def)
  have ne: "career_group (pending ?c) ''A'' \<noteq> []"
    unfolding p g by (simp add: faker_stints_def)
  have le: "''2014-12-02'' \<le> ''2024-05-01''" by simp
  have days: "(case (julianday careers_world ''2024-05-01'', julianday careers_world ''2013-02-06'') of
                   (Some a, Some b) \<Rightarrow> Some (sql_round1 (a - b))
                 | _ \<Rightarrow> None) = Some 4102"
  proof -
    have "\<lfloor>(82041::rat) / 2\<rfloor> = 41020" by (rule floor_unique) simp_all
    then show ?thesis by (simp add: careers_world_def base_world_def sql_round1_def)
  qed
  from career_row_from_dated_stints [OF fk ne, of careers_world "''2024-05-01''"
      "''2024-05-01 12:00:00''"]
  obtain c' row s e where
    run: "careers_run careers_world ''2024-05-01'' ''2024-05-01 12:00:00'' ?c = Inr c'"
    and row: "player_careers (durable c') ''A'' = Some row"
    and cs: "career_start row = Some s" and ce: "career_end row = Some e"
    and cd: "career_days row =
                (case (julianday careers_world e, julianday careers_world s) of
                   (Some a, Some b) \<Rightarrow> Some (sql_round1 (a - b))
                 | _ \<Rightarrow> None)"
    and ex: "\<forall>r1 r2. career_group (pending ?c) ''A'' = [r1, r2]
                  \<and> joined r1 = Some ''2013-02-06'' \<and> left r1 = Some ''2014-12-02''
                  \<and> joined r2 = Some ''2014-12-02'' \<and> left r2 = None
                  \<and> ''2014-12-02'' \<le> ''2024-05-01'' \<longrightarrow>
                  s = ''2013-02-06'' \<and> e = ''2024-05-01'' \<and> stints_count row = 2"
    by blast
  have "s = ''2013-02-06'' \<and> e = ''2024-05-01'' \<and> stints_count row = 2"
    using ex [rule_format, of "stint_row_of ''A'' ''2024-05-01 10:00:00'' (faker_stints ! 0)"
                               "stint_row_of ''A'' ''2024-05-01 10:00:00'' (faker_stints ! 1)"]
    unfolding p g by (simp add: faker_stints_def stint_row_of_def)
  then have "career_start row = Some ''2013-02-06''" "career_end row = Some ''2024-05-01''"
    "career_days row = Some 4102" "stints_count row = 2"
    using cs ce cd days by simp_all
  then show ?thesis using fk' ne [unfolded p] le run row by blast
qed

text \<open>
  The claim as it is written fails on a player with a dated stint that has ended and a
  stint without a start date that is still open: the player has two stints, one of
  them with no \<open>left\<close>, yet \<open>stints_count\<close> is 1 and \<open>career_end\<close> is the end of the
  dated stint, not today. And when today is before the latest \<open>left\<close>, \<open>career_end\<close>
  is that date.
\<close>

theorem career_ignores_undated_stints:
  "length (filter (\<lambda>r. player_title r = ''A'') (team_stints db_A_undated)) = 2
   \<and> list_ex (\<lambda>r. player_title r = ''A'' \<and> left r = None) (team_stints db_A_undated)
   \<and> (case careers_run careers_world ''2024-05-01'' ''2024-05-01 12:00:00''
             (connection_on db_A_undated) of
         Inl x \<Rightarrow> None
       | Inr c' \<Rightarrow> map_option (\<lambda>row. (career_end row, stints_count row))
                     (player_careers (durable c') ''A''))
       = Some (Some ''2014-12-02'', 1)
   \<and> (case careers_run careers_world ''2014-06-01'' ''2014-06-01 12:00:00''
             (connection_on db_A_stints) of
         Inl x \<Rightarrow> None
       | Inr c' \<Rightarrow> map_option career_end (player_careers (durable c') ''A''))
       = Some (Some ''2014-12-02'')"
  by code_simp

subsection \<open>Hard rate limits in the client\<close>

lemma request_from_exit:
  "attempt \<le> m \<Longrightarrow> request_attempt ps (replies attempt) rs = (Inl res, evs) \<Longrightarrow>
     request_from m replies ps attempt rs = (res, evs)"
  by (subst request_from.simps) simp

lemma request_from_continue:
  "attempt \<le> m \<Longrightarrow> request_attempt ps (replies attempt) rs = (Inr rs', evs) \<Longrightarrow>
     request_from m replies ps attempt rs =
       (case request_from m replies ps (attempt + 1) rs' of (res, evs') \<Rightarrow> (res, evs @ evs'))"
  by (subst request_from.simps) simp

lemma full_html_from_exhausted:
  "m < attempt \<Longrightarrow> full_html_from m replies url attempt st = (Inl (HtmlFetchFailed url (snd st)), [])"
  by (subst full_html_from.simps) simp

lemma full_html_from_exit:
  "attempt \<le> m \<Longrightarrow> full_html_attempt (replies attempt) st = (Inl html, evs) \<Longrightarrow>
     full_html_from m replies url attempt st = (Inr html, evs)"
  by (subst full_html_from.simps) simp

lemma full_html_from_continue:
  "attempt \<le> m \<Longrightarrow> full_html_attempt (replies attempt) st = (Inr st', evs) \<Longrightarrow>
     full_html_from m replies url attempt st =
       (case full_html_from m replies url (attempt + 1) st' of (res, evs') \<Rightarrow> (res, evs @ evs'))"
  by (subst full_html_from.simps) simp

declare request_from.simps [simp del] full_html_from.simps [simp del]

lemma request_attempt_rate_limited:
  "is_rate_limited r \<Longrightarrow>
     request_attempt ps (Response r) rs =
       (Inl (Inl (RateLimited (rate_limited_message ps))), [WaitForSlot, HttpGet])"
  by (simp add: request_attempt_def Let_def)

lemma request_attempt_one_get:
  "count_list (snd (request_attempt ps rp rs)) HttpGet = 1"
  by (cases rp)
    (auto simp: request_attempt_def request_handler_def Let_def split: option.splits prod.splits)

lemma request_attempt_exit_independent:
  "isl (fst (request_attempt ps rp rs)) = isl (fst (request_attempt ps rp rs'))"
  by (cases rp)
    (auto simp: request_attempt_def request_handler_def Let_def split: option.splits prod.splits)

lemma retried_continues:
  assumes "retried ps rp"
  shows "\<exists>rs' evs. request_attempt ps rp rs = (Inr rs', evs)"
proof -
  have "\<not> isl (fst (request_attempt ps rp initial_retry_state))"
    using assms by (auto simp: retried_def split: sum.splits)
  then have "\<not> isl (fst (request_attempt ps rp rs))"
    using request_attempt_exit_independent by blast
  then show ?thesis
    by (cases "request_attempt ps rp rs"; cases "fst (request_attempt ps rp rs)") auto
qed

lemma request_from_rate_limited:
  assumes "replies k = Response r" "is_rate_limited r" "k \<le> m"
  shows "attempt \<le> k \<Longrightarrow> \<forall>j. attempt \<le> j \<and> j < k \<longrightarrow> retried ps (replies j) \<Longrightarrow>
     \<exists>evs. request_from m replies ps attempt rs =
             (Inl (RateLimited (rate_limited_message ps)), evs @ [WaitForSlot, HttpGet])
           \<and> count_list evs HttpGet = k - attempt"
proof (induction "k - attempt" arbitrary: attempt rs)
  case 0
  then have "attempt = k" by simp
  then have "request_from m replies ps attempt rs =
               (Inl (RateLimited (rate_limited_message ps)), [] @ [WaitForSlot, HttpGet])"
    using assms request_attempt_rate_limited [of r ps rs]
    by (simp add: request_from_exit)
  then show ?case using \<open>attempt = k\<close> by (intro exI [of _ "[]"]) simp
next
  case (Suc n)
  then have lt: "attempt < k" by simp
  then have "retried ps (replies attempt)" using Suc.prems by simp
  then obtain rs' evs where att: "request_attempt ps (replies attempt) rs = (Inr rs', evs)"
    using retried_continues by blast
  have one: "count_list evs HttpGet = 1"
    using request_attempt_one_get [of ps "replies attempt" rs] att by simp
  have "n = k - (attempt + 1)" using Suc.hyps(2) by simp
  moreover have "attempt + 1 \<le> k" using lt by simp
  moreover have "\<forall>j. attempt + 1 \<le> j \<and> j < k \<longrightarrow> retried ps (replies j)"
    using Suc.prems by simp
  ultimately obtain evs' where
    rest: "request_from m replies ps (attempt + 1) rs' =
             (Inl (RateLimited (rate_limited_message ps)), evs' @ [WaitForSlot, HttpGet])"
    and cnt: "count_list evs' HttpGet = k - (attempt + 1)"
    using Suc.hyps(1) [of "attempt + 1" rs'] by blast
  have "attempt \<le> m" using lt assms(3) by simp
  then have "request_from m replies ps attempt rs =
               (Inl (RateLimited (rate_limited_message ps)), (evs @ evs') @ [WaitForSlot, HttpGet])"
    using att rest by (simp add: request_from_continue)
  moreover have "count_list (evs @ evs') HttpGet = k - attempt"
    using one cnt lt by simp
  ultimately show ?case by blast
qed

lemma full_html_from_never_rate_limited:
  "fst (full_html_from m replies url attempt st) \<noteq> Inl (RateLimited msg)"
proof (induction m replies url attempt st rule: full_html_from.induct)
  case (1 m replies url attempt st)
  show ?case
  proof (cases "m < attempt")
    case True
    then show ?thesis by (simp add: full_html_from_exhausted)
  next
    case False
    then have le: "attempt \<le> m" by simp
    obtain res evs where att: "full_html_attempt (replies attempt) st = (res, evs)"
      by (cases "full_html_attempt (replies attempt) st")
    show ?thesis
    proof (cases res)
      case (Inl html)
      then show ?thesis using le att by (simp add: full_html_from_exit)
    next
      case (Inr st')
      have "fst (full_html_from m replies url (attempt + 1) st') \<noteq> Inl (RateLimited msg)"
        using "1.IH" [OF False att [unfolded Inr, symmetric] refl] .
      then show ?thesis
        using le att Inr
        by (cases "full_html_from m replies url (attempt + 1) st'")
          (simp add: full_html_from_continue)
    qed
  qed
qed

lemma full_html_attempt_rate_limited:
  "is_rate_limited r \<Longrightarrow>
     full_html_attempt (Response r) (b, le) =
       (Inr (min (b * (8 / 5)) 180, le), [WaitForSlot, HttpGet, Cooldown (min (max b 60) 180)])"
  by (simp add: full_html_attempt_def)

lemma full_html_from_result:
  "(\<exists>html. fst (full_html_from m replies url attempt st) = Inr html)
   \<or> (\<exists>e. fst (full_html_from m replies url attempt st) = Inl (HtmlFetchFailed url e))"
proof (induction m replies url attempt st rule: full_html_from.induct)
  case (1 m replies url attempt st)
  show ?case
  proof (cases "m < attempt")
    case True
    then show ?thesis by (simp add: full_html_from_exhausted)
  next
    case False
    then have le: "attempt \<le> m" by simp
    obtain res evs where att: "full_html_attempt (replies attempt) st = (res, evs)"
      by (cases "full_html_attempt (replies attempt) st")
    show ?thesis
    proof (cases res)
      case (Inl html)
      then show ?thesis using le att by (simp add: full_html_from_exit)
    next
      case (Inr st')
      have ih: "(\<exists>html. fst (full_html_from m replies url (attempt + 1) st') = Inr html)
                \<or> (\<exists>e. fst (full_html_from m replies url (attempt + 1) st')
                        = Inl (HtmlFetchFailed url e))"
        using "1.IH" [OF False att [unfolded Inr, symmetric] refl] .
      have "fst (full_html_from m replies url attempt st)
              = fst (full_html_from m replies url (attempt + 1) st')"
        using le att Inr
        by (cases "full_html_from m replies url (attempt + 1) st'")
          (simp add: full_html_from_continue)
      then show ?thesis using ih by simp
    qed
  qed
qed

lemma full_html_from_all_rate_limited:
  assumes all: "\<forall>j. 1 \<le> j \<and> j \<le> m \<longrightarrow> (\<exists>r. replies j = Response r \<and> is_rate_limited r)"
  shows "1 \<le> attempt \<Longrightarrow> attempt \<le> m + 1 \<Longrightarrow>
           \<exists>evs. full_html_from m replies url attempt (b, le) = (Inl (HtmlFetchFailed url le), evs)
                 \<and> count_list evs HttpGet = m + 1 - attempt
                 \<and> (\<forall>e \<in> set evs. e = WaitForSlot \<or> e = HttpGet
                                     \<or> (\<exists>d. e = Cooldown d \<and> 60 \<le> d \<and> d \<le> 180))"
proof (induction "m + 1 - attempt" arbitrary: attempt b)
  case 0
  then have "m < attempt" by simp
  then show ?case using 0 by (simp add: full_html_from_exhausted)
next
  case (Suc n)
  then have le: "attempt \<le> m" by simp
  then obtain r where r: "replies attempt = Response r" "is_rate_limited r"
    using all Suc.prems(1) by blast
  let ?b' = "min (b * (8 / 5)) 180"
  have "n = m + 1 - (attempt + 1)" using Suc.hyps(2) by simp
  moreover have "1 \<le> attempt + 1" "attempt + 1 \<le> m + 1" using le by simp_all
  ultimately obtain evs where
    rest: "full_html_from m replies url (attempt + 1) (?b', le) = (Inl (HtmlFetchFailed url le), evs)"
    and cnt: "count_list evs HttpGet = m + 1 - (attempt + 1)"
    and shape: "\<forall>e \<in> set evs. e = WaitForSlot \<or> e = HttpGet
                                     \<or> (\<exists>d. e = Cooldown d \<and> 60 \<le> d \<and> d \<le> 180)"
    using Suc.hyps(1) [of "attempt + 1" ?b'] by blast
  let ?evs = "[WaitForSlot, HttpGet, Cooldown (min (max b 60) 180)] @ evs"
  have "full_html_from m replies url attempt (b, le) = (Inl (HtmlFetchFailed url le), ?evs)"
    using full_html_from_continue [OF le, of replies "(b, le)"] r
      full_html_attempt_rate_limited [OF r(2), of b le] rest
    by simp
  moreover have "count_list ?evs HttpGet = m + 1 - attempt" using cnt le by simp
  moreover have "\<forall>e \<in> set ?evs. e = WaitForSlot \<or> e = HttpGet
                                     \<or> (\<exists>d. e = Cooldown d \<and> 60 \<le> d \<and> d \<le> 180)"
    using shape by auto
  ultimately show ?case by blast
qed

text \<open>
  C1, as the code has it. In \<^verbatim>\<open>_request\<close>, when the reply to attempt \<open>k\<close> is a hard rate
  limit (status 429 or the marker in the body) and the attempts before it were retried,
  the call raises \<open>RateLimited\<close> with the request's action and page right after the
  request of attempt \<open>k\<close>: \<open>k\<close> requests were sent, and nothing, no sleep and no further
  attempt, follows the last one. In \<^verbatim>\<open>fetch_full_html\<close> the same reply at attempt \<open>k\<close> is
  followed by a cooldown of 60 to 180 seconds and by attempt \<open>k + 1\<close>, with the backoff
  multiplied by 1.6 up to the cap of 180 seconds. This call ends with a document or with
  the error of a failed fetch, never with \<open>RateLimited\<close>; once its attempts are used up
  it raises that error, and against a server that answers each of the \<open>m\<close> attempts with
  a hard rate limit it sends \<open>m\<close> requests, does nothing besides them but cool down, and
  raises the error with no last exception.
\<close>

theorem hard_rate_limit_in_request_and_full_html:
  assumes k: "1 \<le> k" "k \<le> m"
    and rl: "replies k = Response r" "is_rate_limited r"
    and before: "\<forall>j. 1 \<le> j \<and> j < k \<longrightarrow> retried ps (replies j)"
  shows "(\<exists>evs. request m replies ps =
                  (Inl (RateLimited (rate_limited_message ps)), evs @ [WaitForSlot, HttpGet])
                \<and> count_list evs HttpGet = k - 1)
         \<and> full_html_from m replies url k (b, le) =
             (case full_html_from m replies url (k + 1) (min (b * (8 / 5)) 180, le) of
                (res, evs') \<Rightarrow>
                  (res, [WaitForSlot, HttpGet, Cooldown (min (max b 60) 180)] @ evs'))
         \<and> 60 \<le> min (max b 60) 180 \<and> min (max b 60) 180 \<le> 180
         \<and> fst (client_fetch_full_html base m replies title) \<noteq> Inl (RateLimited msg)
         \<and> full_html_from m replies url (m + 1) (b, le) = (Inl (HtmlFetchFailed url le), [])
         \<and> ((\<exists>html. fst (client_fetch_full_html base m replies title) = Inr html)
              \<or> (\<exists>e. fst (client_fetch_full_html base m replies title)
                      = Inl (HtmlFetchFailed
                               (if startswith title ''http'' then title
                                else base @ ''/'' @ replace_char (CHR '' '') (CHR ''_'') title) e)))
         \<and> ((\<forall>j. 1 \<le> j \<and> j \<le> m \<longrightarrow> (\<exists>r'. replies' j = Response r' \<and> is_rate_limited r')) \<longrightarrow>
              (\<exists>evs. client_fetch_full_html base m replies' title =
                        (Inl (HtmlFetchFailed
                                (if startswith title ''http'' then title
                                 else base @ ''/'' @ replace_char (CHR '' '') (CHR ''_'') title)
                                None), evs)
                     \<and> count_list evs HttpGet = m
                     \<and> (\<forall>e \<in> set evs. e = WaitForSlot \<or> e = HttpGet
                                     \<or> (\<exists>d. e = Cooldown d \<and> 60 \<le> d \<and> d \<le> 180))))"
proof -
  let ?url = "if startswith title ''http'' then title
              else base @ ''/'' @ replace_char (CHR '' '') (CHR ''_'') title"
  have a: "\<exists>evs. request m replies ps =
                  (Inl (RateLimited (rate_limited_message ps)), evs @ [WaitForSlot, HttpGet])
                \<and> count_list evs HttpGet = k - 1"
    unfolding request_def
    using request_from_rate_limited [of replies k r m 1 ps initial_retry_state] rl k before
    by simp
  have b: "full_html_from m replies url k (b, le) =
             (case full_html_from m replies url (k + 1) (min (b * (8 / 5)) 180, le) of
                (res, evs') \<Rightarrow>
                  (res, [WaitForSlot, HttpGet, Cooldown (min (max b 60) 180)] @ evs'))"
    using full_html_from_continue [OF k(2), of replies "(b, le)"] rl
      full_html_attempt_rate_limited [OF rl(2), of b le]
    by simp
  have c: "fst (client_fetch_full_html base m replies title) \<noteq> Inl (RateLimited msg)"
    by (simp add: client_fetch_full_html_def Let_def full_html_from_never_rate_limited)
  have d: "full_html_from m replies url (m + 1) (b, le) = (Inl (HtmlFetchFailed url le), [])"
    by (simp add: full_html_from_exhausted)
  have cf: "\<And>rs. client_fetch_full_html base m rs title = full_html_from m rs ?url 1 (10, None)"
    by (simp add: client_fetch_full_html_def Let_def)
  have e: "(\<exists>html. fst (client_fetch_full_html base m replies title) = Inr html)
              \<or> (\<exists>e. fst (client_fetch_full_html base m replies title)
                      = Inl (HtmlFetchFailed ?url e))"
    unfolding cf by (rule full_html_from_result)
  have f: "(\<forall>j. 1 \<le> j \<and> j \<le> m \<longrightarrow> (\<exists>r'. replies' j = Response r' \<and> is_rate_limited r')) \<longrightarrow>
              (\<exists>evs. client_fetch_full_html base m replies' title =
                        (Inl (HtmlFetchFailed ?url None), evs)
                     \<and> count_list evs HttpGet = m
                     \<and> (\<forall>e \<in> set evs. e = WaitForSlot \<or> e = HttpGet
                                     \<or> (\<exists>d. e = Cooldown d \<and> 60 \<le> d \<and> d \<le> 180)))"
  proof
    assume all: "\<forall>j. 1 \<le> j \<and> j \<le> m \<longrightarrow> (\<exists>r'. replies' j = Response r' \<and> is_rate_limited r')"
    from full_html_from_all_rate_limited [OF all, of 1 ?url 10 None]
    show "\<exists>evs. client_fetch_full_html base m replies' title =
                        (Inl (HtmlFetchFailed ?url None), evs)
                     \<and> count_list evs HttpGet = m
                     \<and> (\<forall>e \<in> set evs. e = WaitForSlot \<or> e = HttpGet
                                     \<or> (\<exists>d. e = Cooldown d \<and> 60 \<le> d \<and> d \<le> 180))"
      unfolding cf by simp
  qed
  show ?thesis using a b c d e f by simp
qed

theorem hard_rate_limit_witness:
  "(1::nat) \<le> 2 \<and> (2::nat) \<le> 8
   \<and> error_then_blocked 2 = Response block_page
   \<and> is_rate_limited block_page
   \<and> retried parse_params (error_then_blocked 1)
   \<and> fst (request 8 error_then_blocked parse_params)
       = Inl (RateLimited ''Liquipedia rate limited on API call: parse/Faker'')
   \<and> count_list (snd (request 8 error_then_blocked parse_params)) HttpGet = 2
   \<and> last (snd (request 8 error_then_blocked parse_params)) = HttpGet
   \<and> snd (full_html_from 8 error_then_blocked ''https://w/Faker'' 2 (16, None))
       = [WaitForSlot, HttpGet, Cooldown 60]
          @ snd (full_html_from 8 error_then_blocked ''https://w/Faker'' 3 (128 / 5, None))
   \<and> full_html_from 8 error_then_blocked ''https://w/Faker'' 9 (16, None)
       = (Inl (HtmlFetchFailed ''https://w/Faker'' None), [])
   \<and> always_429 1 = Response response_429 \<and> is_rate_limited response_429
   \<and> fst (client_fetch_full_html ''https://w'' 8 always_429 ''Faker'')
       = Inl (HtmlFetchFailed ''https://w/Faker'' None)
   \<and> count_list (snd (client_fetch_full_html ''https://w'' 8 always_429 ''Faker'')) HttpGet = 8"
proof -
  have h1: "(1::nat) \<le> 2" and h2: "(2::nat) \<le> 8" by simp_all
  have h3: "error_then_blocked 2 = Response block_page" by (simp add: error_then_blocked_def)
  have h4: "is_rate_limited block_page" by code_simp
  have h5': "retried parse_params (error_then_blocked 1)" by code_simp
  have h5: "\<forall>j. 1 \<le> j \<and> j < (2::nat) \<longrightarrow> retried parse_params (error_then_blocked j)"
  proof (intro allI impI)
    fix j :: nat assume "1 \<le> j \<and> j < 2"
    then have "j = 1" by simp
    then show "retried parse_params (error_then_blocked j)" using h5' by simp
  qed
  have a1: "always_429 1 = Response response_429" by (simp add: always_429_def)
  have a2: "is_rate_limited response_429" by code_simp
  have h6: "\<forall>j. 1 \<le> j \<and> j \<le> (8::nat) \<longrightarrow>
              (\<exists>r'. always_429 j = Response r' \<and> is_rate_limited r')"
    using a2 by (simp add: always_429_def)
  have msg: "rate_limited_message parse_params = ''Liquipedia rate limited on API call: parse/Faker''"
    by (simp add: rate_limited_message_def parse_params_def fmt_def py_or_def)
  have u: "(if startswith ''Faker'' ''http'' then ''Faker''
            else ''https://w'' @ ''/'' @ replace_char (CHR '' '') (CHR ''_'') ''Faker'')
           = ''https://w/Faker''"
    by (simp add: startswith_def replace_char_def)
  note T = hard_rate_limit_in_request_and_full_html
             [OF h1 h2 h3 h4 h5, where url = "''https://w/Faker''" and b = 16 and le = None
               and base = "''https://w''" and title = "''Faker''" and msg = "''x''"
               and replies' = always_429]
  from T obtain evs where
    rq: "request 8 error_then_blocked parse_params =
           (Inl (RateLimited (rate_limited_message parse_params)), evs @ [WaitForSlot, HttpGet])"
    and cnt: "count_list evs HttpGet = 2 - 1"
    by blast
  have a: "fst (request 8 error_then_blocked parse_params)
       = Inl (RateLimited ''Liquipedia rate limited on API call: parse/Faker'')"
    using rq msg by simp
  have b: "count_list (snd (request 8 error_then_blocked parse_params)) HttpGet = 2"
    using rq cnt by simp
  have c: "last (snd (request 8 error_then_blocked parse_params)) = HttpGet"
    using rq by simp
  have "full_html_from 8 error_then_blocked ''https://w/Faker'' 2 (16, None) =
             (case full_html_from 8 error_then_blocked ''https://w/Faker'' (2 + 1)
                     (min (16 * (8 / 5)) 180, None) of
                (res, evs') \<Rightarrow>
                  (res, [WaitForSlot, HttpGet, Cooldown (min (max 16 60) 180)] @ evs'))"
    using T by blast
  then have d: "snd (full_html_from 8 error_then_blocked ''https://w/Faker'' 2 (16, None))
       = [WaitForSlot, HttpGet, Cooldown 60]
          @ snd (full_html_from 8 error_then_blocked ''https://w/Faker'' 3 (128 / 5, None))"
    by (simp split: prod.splits)
  have "full_html_from 8 error_then_blocked ''https://w/Faker'' (8 + 1) (16, None)
       = (Inl (HtmlFetchFailed ''https://w/Faker'' None), [])"
    using T by blast
  then have e: "full_html_from 8 error_then_blocked ''https://w/Faker'' 9 (16, None)
       = (Inl (HtmlFetchFailed ''https://w/Faker'' None), [])"
    by simp
  have "\<exists>evs. client_fetch_full_html ''https://w'' 8 always_429 ''Faker'' =
                 (Inl (HtmlFetchFailed ''https://w/Faker'' None), evs)
               \<and> count_list evs HttpGet = 8"
    using T h6 unfolding u by blast
  then have f: "fst (client_fetch_full_html ''https://w'' 8 always_429 ''Faker'')
       = Inl (HtmlFetchFailed ''https://w/Faker'' None)"
    and g: "count_list (snd (client_fetch_full_html ''https://w'' 8 always_429 ''Faker'')) HttpGet = 8"
    by auto
  show ?thesis using h1 h2 h3 h4 h5' a b c d e a1 a2 f g by blast
qed

text \<open>
  The claim as it is written fails for the raw-document fetch: against a server that
  answers every request with status 429, \<^verbatim>\<open>fetch_full_html\<close> with three attempts sends
  three requests, cools down after each, and ends with the error of exhausted retries,
  not with \<open>RateLimited\<close>.
\<close>

theorem full_html_retries_hard_rate_limit:
  "always_429 1 = Response response_429
   \<and> is_rate_limited response_429
   \<and> client_fetch_full_html ''https://w'' 3 always_429 ''Portal:Players''
       = (Inl (HtmlFetchFailed ''https://w/Portal:Players'' None),
          [WaitForSlot, HttpGet, Cooldown 60, WaitForSlot, HttpGet, Cooldown 60,
           WaitForSlot, HttpGet, Cooldown 60])"
  by code_simp

subsection \<open>The rate limiter\<close>

lemma drop_expired_sorted:
  "sorted ts \<Longrightarrow> drop_expired w now ts = filter (\<lambda>s. now - s < w) ts"
proof (induction ts)
  case Nil
  show ?case by simp
next
  case (Cons t ts)
  then have ih: "drop_expired w now ts = filter (\<lambda>s. now - s < w) ts"
    and le: "\<forall>s \<in> set ts. t \<le> s" by auto
  show ?case
  proof (cases "now - t \<ge> w")
    case True
    then show ?thesis using ih by simp
  next
    case False
    then have "\<forall>s \<in> set ts. now - s < w" using le by fastforce
    then have "filter (\<lambda>s. now - s < w) ts = ts" by (simp add: filter_id_conv)
    then show ?thesis using False by simp
  qed
qed

lemma filter_window_later:
  fixes clock now :: rat
  assumes "clock \<le> now"
  shows "filter (\<lambda>s. now - s < w) (filter (\<lambda>s. clock - s < w) hist)
           = filter (\<lambda>s. now - s < w) hist"
proof -
  have "\<And>s. (clock - s < w \<and> now - s < w) = (now - s < w)" using assms by auto
  then show ?thesis by simp
qed

text \<open>
  One call. \<open>hist\<close> is the list of all timestamps recorded so far; the queue holds
  those of them that are younger than the window, seen from the clock.
\<close>

lemma wait_for_slot_step:
  assumes n: "0 < max_requests l" and w: "0 < window_seconds l"
    and tk: "0 \<le> gap k" "0 \<le> jitter k" "0 \<le> overshoot k"
    and srt: "sorted hist" and old: "\<forall>s \<in> set hist. s \<le> clock"
    and q: "timestamps l = filter (\<lambda>s. clock - s < of_int (window_seconds l)) hist"
    and full: "int (length (timestamps l)) \<le> max_requests l"
  shows "\<exists>l' t. wait_for_slot l clock k = Inr (l', t) \<and> clock \<le> t
           \<and> max_requests l' = max_requests l \<and> window_seconds l' = window_seconds l
           \<and> timestamps l' = filter (\<lambda>s. t - s < of_int (window_seconds l)) (hist @ [t])
           \<and> int (length (timestamps l')) \<le> max_requests l"
proof -
  let ?W = "of_int (window_seconds l) :: rat"
  let ?now = "clock + gap k"
  let ?ts = "drop_expired ?W ?now (timestamps l)"
  have Wpos: "0 < ?W" using w by simp
  have now: "clock \<le> ?now" using tk(1) by simp
  have sq: "sorted (timestamps l)" unfolding q using srt by (rule sorted_wrt_filter)
  have ts: "?ts = filter (\<lambda>s. ?now - s < ?W) hist"
    using drop_expired_sorted [OF sq, of ?W ?now] filter_window_later [OF now, of ?W hist]
    unfolding q by simp
  have len_ts: "length ?ts \<le> length (timestamps l)"
    using drop_expired_sorted [OF sq, of ?W ?now] by simp
  show ?thesis
  proof (cases "int (length ?ts) < max_requests l")
    case True
    then have r: "wait_for_slot l clock k = Inr (l\<lparr>timestamps := ?ts @ [?now]\<rparr>, ?now)"
      by (simp add: wait_for_slot_def Let_def)
    have "filter (\<lambda>s. ?now - s < ?W) (hist @ [?now]) = ?ts @ [?now]"
      using ts Wpos by simp
    then show ?thesis using r now True by simp
  next
    case False
    then have "?ts \<noteq> []" using n by auto
    then obtain t0 rest where c: "?ts = t0 # rest" by (cases ?ts) auto
    let ?sleep = "max 1 (?W - (?now - t0) + jitter k)"
    let ?now' = "?now + ?sleep + overshoot k"
    let ?ts' = "drop_expired ?W ?now' ?ts"
    have r: "wait_for_slot l clock k = Inr (l\<lparr>timestamps := ?ts' @ [?now']\<rparr>, ?now')"
      using False c by (simp add: wait_for_slot_def Let_def)
    have sl: "?W - (?now - t0) \<le> ?sleep" using tk(2) by simp
    have sl1: "0 \<le> ?sleep" by simp
    have later: "?now \<le> ?now'" using sl1 tk(3) by linarith
    have exp0: "?now' - t0 \<ge> ?W" using sl tk(3) by linarith
    have sts: "sorted ?ts" unfolding ts using srt by (rule sorted_wrt_filter)
    have ts': "?ts' = filter (\<lambda>s. ?now' - s < ?W) hist"
      using drop_expired_sorted [OF sts, of ?W ?now'] filter_window_later [OF later, of ?W hist]
      unfolding ts by simp
    have "?ts' = drop_expired ?W ?now' rest" using c exp0 by simp
    moreover have "length (drop_expired ?W ?now' rest) \<le> length rest"
    proof -
      have "sorted rest" using sts c by simp
      then show ?thesis using drop_expired_sorted [of rest ?W ?now'] by simp
    qed
    ultimately have "length ?ts' \<le> length rest" by simp
    moreover have "length rest < length (timestamps l)" using len_ts c by simp
    ultimately have bound: "int (length (?ts' @ [?now'])) \<le> max_requests l"
      using full by simp
    have "filter (\<lambda>s. ?now' - s < ?W) (hist @ [?now']) = ?ts' @ [?now']"
      using ts' Wpos by simp
    moreover have "clock \<le> ?now'" using now later by linarith
    ultimately show ?thesis using r bound by simp
  qed
qed

lemma acquire_all_invariant:
  assumes n: "0 < max_requests l" and w: "0 < window_seconds l"
    and tk: "\<forall>k \<in> set ks. 0 \<le> gap k \<and> 0 \<le> jitter k \<and> 0 \<le> overshoot k"
    and srt: "sorted hist" and old: "\<forall>s \<in> set hist. s \<le> clock"
    and q: "timestamps l = filter (\<lambda>s. clock - s < of_int (window_seconds l)) hist"
    and full: "int (length (timestamps l)) \<le> max_requests l"
  shows "\<exists>l' clock' recorded.
           acquire_all l clock ks = Inr (l', clock', recorded)
           \<and> length recorded = length ks
           \<and> (\<forall>i < length recorded.
                 int (length (filter (\<lambda>s. recorded ! i - s < of_int (window_seconds l))
                                (hist @ take (Suc i) recorded)))
                   \<le> max_requests l)"
  using assms
proof (induction ks arbitrary: l clock hist)
  case Nil
  then show ?case by simp
next
  case (Cons k ks)
  have tk0: "0 \<le> gap k" "0 \<le> jitter k" "0 \<le> overshoot k" using Cons.prems(3) by auto
  from wait_for_slot_step [OF Cons.prems(1,2) tk0 Cons.prems(4,5,6,7)]
  obtain l1 t where st: "wait_for_slot l clock k = Inr (l1, t)" and ct: "clock \<le> t"
    and n1: "max_requests l1 = max_requests l" and w1: "window_seconds l1 = window_seconds l"
    and q1: "timestamps l1 = filter (\<lambda>s. t - s < of_int (window_seconds l)) (hist @ [t])"
    and f1: "int (length (timestamps l1)) \<le> max_requests l"
    by blast
  have srt1: "sorted (hist @ [t])"
    using Cons.prems(4,5) ct by (auto simp: sorted_append)
  have old1: "\<forall>s \<in> set (hist @ [t]). s \<le> t" using Cons.prems(5) ct by auto
  have tks: "\<forall>k \<in> set ks. 0 \<le> gap k \<and> 0 \<le> jitter k \<and> 0 \<le> overshoot k"
    using Cons.prems(3) by simp
  from Cons.IH [of l1 "hist @ [t]" t] Cons.prems(1,2) n1 w1 tks srt1 old1 q1 f1
  obtain l2 c2 rec2 where
    rest: "acquire_all l1 t ks = Inr (l2, c2, rec2)"
    and len: "length rec2 = length ks"
    and inv: "\<forall>i < length rec2.
                 int (length (filter (\<lambda>s. rec2 ! i - s < of_int (window_seconds l))
                                ((hist @ [t]) @ take (Suc i) rec2)))
                   \<le> max_requests l"
    by auto
  have res: "acquire_all l clock (k # ks) = Inr (l2, c2, t # rec2)"
    using st rest by simp
  have "\<forall>i < length (t # rec2).
          int (length (filter (\<lambda>s. (t # rec2) ! i - s < of_int (window_seconds l))
                         (hist @ take (Suc i) (t # rec2))))
            \<le> max_requests l"
  proof (intro allI impI)
    fix i assume i: "i < length (t # rec2)"
    show "int (length (filter (\<lambda>s. (t # rec2) ! i - s < of_int (window_seconds l))
                         (hist @ take (Suc i) (t # rec2))))
            \<le> max_requests l"
    proof (cases i)
      case 0
      then show ?thesis using q1 f1 by simp
    next
      case (Suc j)
      then have "j < length rec2" using i by simp
      then show ?thesis using inv Suc by simp
    qed
  qed
  then show ?case using res len by simp
qed

text \<open>
  C3. A limiter made for at least one request per window of positive length, a clock
  that does not run backwards and sleeps that last at least as long as asked: every
  call of \<^verbatim>\<open>wait_for_slot\<close> returns, and at the moment a call records its timestamp the
  timestamps recorded so far, this one included, that are younger than the window are at
  most \<open>max_requests\<close>.
\<close>

theorem limiter_never_exceeds_window:
  assumes n: "0 < n" and w: "0 < w"
    and tk: "\<forall>k \<in> set ks. 0 \<le> gap k \<and> 0 \<le> jitter k \<and> 0 \<le> overshoot k"
  shows "\<exists>l clock' recorded.
           acquire_all (new_limiter n w) clock ks = Inr (l, clock', recorded)
           \<and> length recorded = length ks
           \<and> (\<forall>i < length recorded.
                 int (length (filter (\<lambda>s. recorded ! i - s < of_int w)
                                (take (Suc i) recorded))) \<le> n)"
proof -
  let ?l = "new_limiter n w"
  have a: "0 < max_requests ?l" "0 < window_seconds ?l" using n w by (simp_all add: new_limiter_def)
  have b: "sorted ([]::rat list)" "\<forall>s \<in> set ([]::rat list). s \<le> clock" by simp_all
  have c: "timestamps ?l = filter (\<lambda>s. clock - s < of_int (window_seconds ?l)) []"
    by (simp add: new_limiter_def)
  have d: "int (length (timestamps ?l)) \<le> max_requests ?l" using n by (simp add: new_limiter_def)
  from acquire_all_invariant [OF a tk b c d]
  show ?thesis by (simp add: new_limiter_def)
qed

theorem limiter_witness:
  "(0::int) < 2 \<and> (0::int) < 10
   \<and> list_all (\<lambda>k. 0 \<le> gap k \<and> 0 \<le> jitter k \<and> 0 \<le> overshoot k) example_ticks
   \<and> acquire_all (new_limiter 2 10) 0 example_ticks
       = Inr (\<lparr>max_requests = 2, window_seconds = 10, timestamps = [21 / 2, 15]\<rparr>, 15,
              [0, 1, 21 / 2, 15])
   \<and> list_all
        (\<lambda>i. int (length (filter (\<lambda>s. [0, 1, 21 / 2, 15 :: rat] ! i - s < 10)
                             (take (Suc i) [0, 1, 21 / 2, 15]))) \<le> 2)
        [0, 1, 2, 3]"
proof -
  have h1: "(0::int) < 2" and h2: "(0::int) < 10" by simp_all
  have h3': "list_all (\<lambda>k. 0 \<le> gap k \<and> 0 \<le> jitter k \<and> 0 \<le> overshoot k) example_ticks"
    by (simp add: example_ticks_def)
  then have h3: "\<forall>k \<in> set example_ticks. 0 \<le> gap k \<and> 0 \<le> jitter k \<and> 0 \<le> overshoot k"
    unfolding list_all_iff .
  have ev: "acquire_all (new_limiter 2 10) 0 example_ticks
       = Inr (\<lparr>max_requests = 2, window_seconds = 10, timestamps = [21 / 2, 15]\<rparr>, 15,
              [0, 1, 21 / 2, 15])"
    by code_simp
  from limiter_never_exceeds_window [OF h1 h2 h3, of 0] obtain l c recorded where
    r: "acquire_all (new_limiter 2 10) 0 example_ticks = Inr (l, c, recorded)"
    and b: "\<forall>i < length recorded.
                 int (length (filter (\<lambda>s. recorded ! i - s < of_int 10)
                                (take (Suc i) recorded))) \<le> 2"
    by blast
  have rec: "recorded = [0, 1, 21 / 2, 15]" using r ev by simp
  have "\<forall>i \<in> set [0, 1, 2, 3::nat].
          int (length (filter (\<lambda>s. [0, 1, 21 / 2, 15 :: rat] ! i - s < 10)
                             (take (Suc i) [0, 1, 21 / 2, 15]))) \<le> 2"
  proof
    fix i :: nat assume "i \<in> set [0, 1, 2, 3]"
    then have "i < length recorded" unfolding rec by auto
    then show "int (length (filter (\<lambda>s. [0, 1, 21 / 2, 15 :: rat] ! i - s < 10)
                             (take (Suc i) [0, 1, 21 / 2, 15]))) \<le> 2"
      using b unfolding rec by simp
  qed
  then have la: "list_all
        (\<lambda>i. int (length (filter (\<lambda>s. [0, 1, 21 / 2, 15 :: rat] ! i - s < 10)
                             (take (Suc i) [0, 1, 21 / 2, 15]))) \<le> 2)
        [0, 1, 2, 3]"
    unfolding list_all_iff .
  show ?thesis using h1 h2 h3' ev la by (intro conjI)
qed

end
